theory Spec2Isabelle
  imports Main "HOL-Library.Sublist"
begin

section \<open>JavaScript values\<close>

text \<open>
  Step parameters, task params, executor results and the parsed LLM answer are typed
  \<^verbatim>\<open>any\<close> or \<^verbatim>\<open>Record<string, any>\<close> in the source. They are modelled by the
  values JSON can denote, plus \<^verbatim>\<open>undefined\<close>. Strings are character lists; numbers
  are the integers (the numbers the modelled code produces itself are array lengths and
  their multiples).
\<close>

datatype jsval =
    JUndefined
  | JNull
  | JBool bool
  | JNum int
  | JStr string
  | JArr "jsval list"
  | JObj "(string \<times> jsval) list"

text \<open>
  A thrown value. \<open>Err m\<close> is \<^verbatim>\<open>new Error(m)\<close> (or any thrown value whose message or
  string form is \<open>m\<close>); \<open>TypeError\<close> is the engine's own TypeError (calling a method
  a value does not have, reading a property of \<^verbatim>\<open>null\<close> or \<^verbatim>\<open>undefined\<close>), whose message
  text the source does not fix.
\<close>

datatype exn = TypeError | Err string

definition bind_e :: "exn + 'a \<Rightarrow> ('a \<Rightarrow> exn + 'b) \<Rightarrow> exn + 'b" where
  "bind_e m f = (case m of Inl e \<Rightarrow> Inl e | Inr x \<Rightarrow> f x)"

text \<open>Truthiness, and \<^verbatim>\<open>a || b\<close>.\<close>

fun truthy :: "jsval \<Rightarrow> bool" where
  "truthy JUndefined = False"
| "truthy JNull = False"
| "truthy (JBool b) = b"
| "truthy (JNum n) = (n \<noteq> 0)"
| "truthy (JStr s) = (s \<noteq> [])"
| "truthy (JArr xs) = True"
| "truthy (JObj kvs) = True"

definition js_or :: "jsval \<Rightarrow> jsval \<Rightarrow> jsval" where
  "js_or a b = (if truthy a then a else b)"

text \<open>
  Property read \<^verbatim>\<open>v.k\<close>, for the property names this code reads (\<^verbatim>\<open>command\<close>,
  \<^verbatim>\<open>filePath\<close>, \<^verbatim>\<open>operation\<close>, \<^verbatim>\<open>content\<close>, \<^verbatim>\<open>steps\<close>, \<^verbatim>\<open>id\<close>, ...): an object gives
  the entry or \<^verbatim>\<open>undefined\<close>; \<^verbatim>\<open>null\<close> and \<^verbatim>\<open>undefined\<close> throw; strings, numbers,
  booleans and arrays have none of these properties.
\<close>

fun getProp :: "jsval \<Rightarrow> string \<Rightarrow> exn + jsval" where
  "getProp JUndefined k = Inl TypeError"
| "getProp JNull k = Inl TypeError"
| "getProp (JObj kvs) k = Inr (case map_of kvs k of Some v \<Rightarrow> v | None \<Rightarrow> JUndefined)"
| "getProp v k = Inr JUndefined"

text \<open>Decimal digits of a natural number, for \<^verbatim>\<open>String(n)\<close> and template strings.\<close>

fun nat_to_string :: "nat \<Rightarrow> string" where
  "nat_to_string n =
     (if n < 10 then [char_of (48 + n)]
      else nat_to_string (n div 10) @ [char_of (48 + n mod 10)])"

declare nat_to_string.simps [simp del]

definition int_to_string :: "int \<Rightarrow> string" where
  "int_to_string i = (if i < 0 then CHR ''-'' # nat_to_string (nat (- i)) else nat_to_string (nat i))"

fun join_with :: "string \<Rightarrow> string list \<Rightarrow> string" where
  "join_with sep [] = []"
| "join_with sep [x] = x"
| "join_with sep (x # y # ys) = x @ sep @ join_with sep (y # ys)"

text \<open>
  The string a template string \<^verbatim>\<open>${v}\<close> makes of a value, when it makes one: an array
  joins its elements with commas (\<^verbatim>\<open>null\<close> and \<^verbatim>\<open>undefined\<close> elements as the empty
  string), an object is \<^verbatim>\<open>[object Object]\<close>. The numbers of this model are integers, printed
  with all their digits: that is what the code prints for the integers a JavaScript
  number holds exactly (magnitude below \<^verbatim>\<open>2^53\<close>). A larger number is rounded, and from
  \<^verbatim>\<open>1e21\<close> on printed with an exponent; fractions are not among the values.
\<close>

fun ToString :: "jsval \<Rightarrow> string" where
  "ToString JUndefined = ''undefined''"
| "ToString JNull = ''null''"
| "ToString (JBool b) = (if b then ''true'' else ''false'')"
| "ToString (JNum n) = int_to_string n"
| "ToString (JStr s) = s"
| "ToString (JArr xs) =
     join_with '','' (map (\<lambda>x. if x = JUndefined \<or> x = JNull then [] else ToString x) xs)"
| "ToString (JObj kvs) = ''[object Object]''"

text \<open>
  The conversion itself can throw. The values here are data (what \<^verbatim>\<open>JSON.parse\<close> and the
  webview hand over), so no entry of an object is a function: an object with an entry of
  its own named \<^verbatim>\<open>toString\<close> has no callable \<^verbatim>\<open>toString\<close>, its \<^verbatim>\<open>valueOf\<close> is not callable
  or returns the object itself, and the conversion throws a \<^verbatim>\<open>TypeError\<close>. An array
  converts its elements.
\<close>

fun stringifiable :: "jsval \<Rightarrow> bool" where
  "stringifiable (JArr xs) = (\<forall>x \<in> set xs. stringifiable x)"
| "stringifiable (JObj kvs) = (map_of kvs ''toString'' = None)"
| "stringifiable v = True"

definition template :: "jsval \<Rightarrow> exn + string" where
  "template v = (if stringifiable v then Inr (ToString v) else Inl TypeError)"

text \<open>\<^verbatim>\<open>String.prototype.toLowerCase\<close> on the ASCII letters.\<close>

definition lower_char :: "char \<Rightarrow> char" where
  "lower_char c =
     (let n = (of_char c :: nat) in if 65 \<le> n \<and> n \<le> 90 then char_of (n + 32) else c)"

definition toLowerCase :: "string \<Rightarrow> string" where
  "toLowerCase s = map lower_char s"

text \<open>
  \<^verbatim>\<open>s.includes(t)\<close> on a string is \<open>sublist t s\<close> and \<^verbatim>\<open>s.startsWith(t)\<close> is
  \<open>prefix t s\<close>. On the \<^verbatim>\<open>any\<close>-typed path values: an array has \<^verbatim>\<open>includes\<close> (element
  membership) but no \<^verbatim>\<open>startsWith\<close>; numbers, booleans and plain objects have neither,
  and the call throws.
\<close>

fun js_includes :: "jsval \<Rightarrow> string \<Rightarrow> exn + bool" where
  "js_includes (JStr s) t = Inr (sublist t s)"
| "js_includes (JArr xs) t = Inr (JStr t \<in> set xs)"
| "js_includes v t = Inl TypeError"

fun js_startsWith :: "jsval \<Rightarrow> string \<Rightarrow> exn + bool" where
  "js_startsWith (JStr s) t = Inr (prefix t s)"
| "js_startsWith v t = Inl TypeError"

text \<open>
  \<^verbatim>\<open>list.some(x => v.includes(x))\<close>: the callback runs on the entries in order, stops at
  the first hit, and a throw in the callback leaves the loop.
\<close>

fun some_includes :: "jsval \<Rightarrow> string list \<Rightarrow> exn + bool" where
  "some_includes v [] = Inr False"
| "some_includes v (t # ts) =
     (case js_includes v t of
        Inl e \<Rightarrow> Inl e
      | Inr True \<Rightarrow> Inr True
      | Inr False \<Rightarrow> some_includes v ts)"

section \<open>Data model (types.ts)\<close>

datatype StepStatus = Pending | Running | Completed | Failed

datatype TaskStatus =
  Planning | Analyzing | Executing | TaskCompleted | TaskFailed | Cancelled

datatype TaskType = Refactor | Implement | Fix | Review | Test | Document

text \<open>
  Record fields carry the interface's name after a prefix, since two records cannot
  share a field name. The \<^verbatim>\<open>Date\<close> fields (\<^verbatim>\<open>startedAt\<close>, \<^verbatim>\<open>completedAt\<close>,
  \<^verbatim>\<open>createdAt\<close>), \<^verbatim>\<open>duration\<close> and the floating-point \<^verbatim>\<open>progress\<close> are wall-clock
  and floating-point data and are left out. The fields of a step that the planner fills
  from the LLM's JSON hold whatever value the JSON had.
\<close>

record TaskStep =
  step_id :: jsval
  step_name :: jsval
  step_description :: jsval
  step_type :: jsval
  step_status :: StepStatus
  step_result :: "jsval option"
  step_error :: "exn option"
  step_parameters :: jsval

record GitInfo =
  branch :: string
  lastCommit :: string
  hasUncommittedChanges :: bool

record TaskContext =
  workspaceRoot :: "string option"
  currentFile :: "string option"
  language :: "string option"
  projectType :: "string option"
  gitInfo :: "GitInfo option"

record SafetyValidation =
  safe :: bool
  reason :: "string option"
  warnings :: "string list"
  recommendations :: "string list"

section \<open>SafetyValidator (agent/safety.ts)\<close>

definition dangerousOperations :: "string list" where
  "dangerousOperations =
     [''rm -rf'', ''sudo rm -rf'', ''del /s /q'', ''format'', ''dd if=/dev/zero'',
      ''shred'', ''wipe'']"

definition sensitiveFiles :: "string list" where
  "sensitiveFiles =
     [''.env'', ''.git'', ''node_modules'', ''package-lock.json'', ''yarn.lock'',
      ''.vscode/settings.json'', ''config.json'', ''secrets.json'']"

text \<open>
  \<^verbatim>\<open>step.parameters.command?.toLowerCase() || ''\<close>: \<^verbatim>\<open>null\<close> and \<^verbatim>\<open>undefined\<close> stop the
  optional chain; a string is lower-cased; any other value has no \<^verbatim>\<open>toLowerCase\<close>.
\<close>

definition lowered_command :: "jsval \<Rightarrow> exn + string" where
  "lowered_command params =
     bind_e (getProp params ''command'') (\<lambda>c.
       case c of
         JUndefined \<Rightarrow> Inr []
       | JNull \<Rightarrow> Inr []
       | JStr s \<Rightarrow> Inr (toLowerCase s)
       | _ \<Rightarrow> Inl TypeError)"

text \<open>The check for dangerous terminal commands (the first block of \<^verbatim>\<open>validateStep\<close>).\<close>

definition check_dangerous :: "TaskStep \<Rightarrow> SafetyValidation \<Rightarrow> exn + SafetyValidation" where
  "check_dangerous step v =
     (if step_type step = JStr ''terminal_command'' then
        bind_e (lowered_command (step_parameters step)) (\<lambda>command.
        bind_e (some_includes (JStr command) dangerousOperations) (\<lambda>isDangerous.
          if isDangerous then
            bind_e (getProp (step_parameters step) ''command'') (\<lambda>c.
            bind_e (template c) (\<lambda>shown.
              Inr (v\<lparr>safe := False,
                     reason := Some (''Dangerous command detected: '' @ shown),
                     warnings := warnings v @
                       [''This command could cause data loss or system damage''],
                     recommendations := recommendations v @
                       [''Review the command carefully before execution'']\<rparr>)))
          else Inr v))
      else Inr v)"

text \<open>The check for sensitive file operations (second block).\<close>

definition check_sensitive :: "TaskStep \<Rightarrow> SafetyValidation \<Rightarrow> exn + SafetyValidation" where
  "check_sensitive step v =
     (if step_type step = JStr ''file_operation'' then
        bind_e (getProp (step_parameters step) ''filePath'') (\<lambda>fp.
        bind_e (getProp (step_parameters step) ''operation'') (\<lambda>opn.
          let filePath = js_or fp (JStr []); operation = js_or opn (JStr []) in
          bind_e (some_includes filePath sensitiveFiles) (\<lambda>isSensitiveFile.
            if isSensitiveFile \<and> (operation = JStr ''delete'' \<or> operation = JStr ''replace'')
            then
              bind_e (template filePath) (\<lambda>shown.
                Inr (v\<lparr>safe := False,
                       reason := Some (''Attempting to modify sensitive file: '' @ shown),
                       warnings := warnings v @
                         [''This operation could affect project configuration or security''],
                       recommendations := recommendations v @
                         [''Backup the file before proceeding'']\<rparr>))
            else Inr v)))
      else Inr v)"

text \<open>
  The check for workspace boundary violations (third block). \<^verbatim>\<open>if (context.workspaceRoot)\<close>
  is false for a missing root and for the empty string.
\<close>

definition check_boundary ::
  "TaskStep \<Rightarrow> TaskContext \<Rightarrow> SafetyValidation \<Rightarrow> exn + SafetyValidation" where
  "check_boundary step ctx v =
     (case workspaceRoot ctx of
        None \<Rightarrow> Inr v
      | Some root \<Rightarrow>
          if root = [] then Inr v
          else
            bind_e (getProp (step_parameters step) ''filePath'') (\<lambda>fp.
              let filePath = js_or fp (JStr []) in
              if truthy filePath then
                bind_e (js_startsWith filePath root) (\<lambda>inside.
                  if \<not> inside then
                    bind_e (template filePath) (\<lambda>shown.
                      Inr (v\<lparr>safe := False,
                             reason := Some (''Operation outside workspace boundary: '' @ shown),
                             warnings := warnings v @
                               [''This operation targets files outside the current workspace''],
                             recommendations := recommendations v @
                               [''Ensure the file path is within the workspace'']\<rparr>))
                  else Inr v)
              else Inr v))"

text \<open>The advisory check for uncommitted changes (fourth block).\<close>

definition check_git :: "TaskStep \<Rightarrow> TaskContext \<Rightarrow> SafetyValidation \<Rightarrow> SafetyValidation" where
  "check_git step ctx v =
     (if (case gitInfo ctx of None \<Rightarrow> False | Some g \<Rightarrow> hasUncommittedChanges g)
         \<and> step_type step = JStr ''file_operation''
      then v\<lparr>warnings := warnings v @ [''There are uncommitted changes in the git repository''],
             recommendations := recommendations v @
               [''Consider committing or stashing changes before proceeding'']\<rparr>
      else v)"

text \<open>
  The advisory check for large contents (fifth block): \<^verbatim>\<open>content.length > 1000000\<close>.
  A string and an array have a numeric length; a plain object has the \<^verbatim>\<open>length\<close> entry
  it was given, compared here when it is a number. The coercion of any other
  \<^verbatim>\<open>length\<close> entry to a number is not modelled: the comparison is taken as false, where
  the code warns for an entry like the string \<^verbatim>\<open>"2000000"\<close> and throws a \<^verbatim>\<open>TypeError\<close>
  for an entry that has no primitive value (an object with a \<^verbatim>\<open>toString\<close> entry of its
  own). The statements below about \<^verbatim>\<open>file_operation\<close> steps do not speak of warnings, so
  only the throw matters to them: they are to be read for contents whose \<^verbatim>\<open>length\<close> has
  a primitive value, as it has for every string and every array.
\<close>

fun js_length :: "jsval \<Rightarrow> jsval" where
  "js_length (JStr s) = JNum (int (length s))"
| "js_length (JArr xs) = JNum (int (length xs))"
| "js_length (JObj kvs) = (case map_of kvs ''length'' of Some v \<Rightarrow> v | None \<Rightarrow> JUndefined)"
| "js_length v = JUndefined"

definition check_large :: "TaskStep \<Rightarrow> SafetyValidation \<Rightarrow> exn + SafetyValidation" where
  "check_large step v =
     (if step_type step = JStr ''file_operation'' then
        bind_e (getProp (step_parameters step) ''content'') (\<lambda>content.
          if truthy content \<and> (case js_length content of JNum n \<Rightarrow> n > 1000000 | _ \<Rightarrow> False)
          then Inr (v\<lparr>warnings := warnings v @ [''Large file operation detected''],
                      recommendations := recommendations v @
                        [''Consider breaking this into smaller operations'']\<rparr>)
          else Inr v)
      else Inr v)"

text \<open>The advisory check for recursive patterns in a command (sixth block).\<close>

definition check_recursive :: "TaskStep \<Rightarrow> SafetyValidation \<Rightarrow> exn + SafetyValidation" where
  "check_recursive step v =
     (if step_type step = JStr ''terminal_command'' then
        bind_e (getProp (step_parameters step) ''command'') (\<lambda>c.
          let command = js_or c (JStr []) in
          bind_e (some_includes command [''**'', ''/*'', [CHR 0x5C, CHR ''*'']]) (\<lambda>globbing.
            if globbing
            then Inr (v\<lparr>warnings := warnings v @ [''Recursive operation detected''],
                        recommendations := recommendations v @
                          [''Verify the scope of this operation'']\<rparr>)
            else Inr v))
      else Inr v)"

text \<open>
  \<^verbatim>\<open>validateStep(step, context)\<close>: the six blocks in the source's order, on the record
  that starts as \<^verbatim>\<open>{safe: true, warnings: [], recommendations: []}\<close>. \<open>Inl\<close> is a throw
  (the promise rejects).
\<close>

definition validateStep :: "TaskStep \<Rightarrow> TaskContext \<Rightarrow> exn + SafetyValidation" where
  "validateStep step ctx =
     bind_e (check_dangerous step
               \<lparr>safe = True, reason = None, warnings = [], recommendations = []\<rparr>) (\<lambda>v1.
     bind_e (check_sensitive step v1) (\<lambda>v2.
     bind_e (check_boundary step ctx v2) (\<lambda>v3.
     bind_e (check_large step (check_git step ctx v3)) (\<lambda>v5.
     check_recursive step v5))))"

section \<open>TaskPlanner (agent/planner.ts)\<close>

record Plan =
  plan_steps :: "TaskStep list"
  plan_estimatedDuration :: jsval

definition type_name :: "TaskType \<Rightarrow> string" where
  "type_name t =
     (case t of Refactor \<Rightarrow> ''refactor'' | Implement \<Rightarrow> ''implement'' | Fix \<Rightarrow> ''fix''
      | Review \<Rightarrow> ''review'' | Test \<Rightarrow> ''test'' | Document \<Rightarrow> ''document'')"

text \<open>An optional string field as a value, and the task context as the object it is.\<close>

definition opt_js :: "string option \<Rightarrow> jsval" where
  "opt_js x = (case x of None \<Rightarrow> JUndefined | Some s \<Rightarrow> JStr s)"

definition opt_field :: "string \<Rightarrow> string option \<Rightarrow> (string \<times> jsval) list" where
  "opt_field k x = (case x of None \<Rightarrow> [] | Some s \<Rightarrow> [(k, JStr s)])"

definition context_js :: "TaskContext \<Rightarrow> jsval" where
  "context_js ctx =
     JObj (opt_field ''workspaceRoot'' (workspaceRoot ctx)
         @ opt_field ''currentFile'' (currentFile ctx)
         @ opt_field ''language'' (language ctx)
         @ opt_field ''projectType'' (projectType ctx)
         @ (case gitInfo ctx of
              None \<Rightarrow> []
            | Some g \<Rightarrow>
                [(''gitInfo'', JObj [(''branch'', JStr (branch g)),
                                     (''lastCommit'', JStr (lastCommit g)),
                                     (''hasUncommittedChanges'', JBool (hasUncommittedChanges g))])]))"

text \<open>
  \<^verbatim>\<open>response.match(/\{[\s\S]*\}/)\<close>: the text from the first \<^verbatim>\<open>{\<close> to the last \<^verbatim>\<open>}\<close>
  after it, when there is one.
\<close>

definition json_match :: "string \<Rightarrow> string option" where
  "json_match response =
     (let s = dropWhile (\<lambda>c. c \<noteq> CHR ''{'') response in
      if s = [] then None
      else if CHR ''}'' \<in> set s then Some (rev (dropWhile (\<lambda>c. c \<noteq> CHR ''}'') (rev s)))
      else None)"

text \<open>The callback of \<^verbatim>\<open>parsed.steps.map((step, index) => ...)\<close>.\<close>

definition parsed_step :: "jsval \<Rightarrow> nat \<Rightarrow> exn + TaskStep" where
  "parsed_step step index =
     bind_e (getProp step ''id'') (\<lambda>i.
     bind_e (getProp step ''name'') (\<lambda>n.
     bind_e (getProp step ''description'') (\<lambda>d.
     bind_e (getProp step ''type'') (\<lambda>t.
     bind_e (getProp step ''parameters'') (\<lambda>p.
       Inr \<lparr>step_id = js_or i (JStr (''step_'' @ nat_to_string (index + 1))),
            step_name = js_or n (JStr (''Step '' @ nat_to_string (index + 1))),
            step_description = js_or d (JStr []),
            step_type = js_or t (JStr ''analysis''),
            step_status = Pending,
            step_result = None,
            step_error = None,
            step_parameters = js_or p (JObj [])\<rparr>)))))"

fun map_steps :: "jsval list \<Rightarrow> nat \<Rightarrow> exn + TaskStep list" where
  "map_steps [] index = Inr []"
| "map_steps (x # xs) index =
     bind_e (parsed_step x index) (\<lambda>s.
     bind_e (map_steps xs (index + 1)) (\<lambda>ss. Inr (s # ss)))"

text \<open>
  \<^verbatim>\<open>parsePlanResponse\<close>. \<open>parse\<close> is \<^verbatim>\<open>JSON.parse\<close>, a parameter of the model: \<open>None\<close>
  is its SyntaxError. \<^verbatim>\<open>parsed.steps.map\<close> throws unless \<^verbatim>\<open>parsed.steps\<close> is an
  array. Whatever is thrown inside is caught and replaced by the one error.
\<close>

definition parsePlanResponse_try :: "(string \<Rightarrow> jsval option) \<Rightarrow> string \<Rightarrow> exn + Plan" where
  "parsePlanResponse_try parse response =
     (case json_match response of
        None \<Rightarrow> Inl (Err ''No JSON found in response'')
      | Some jsonText \<Rightarrow>
          (case parse jsonText of
             None \<Rightarrow> Inl (Err ''SyntaxError'')
           | Some parsed \<Rightarrow>
               bind_e (getProp parsed ''steps'') (\<lambda>st.
                 case st of
                   JArr xs \<Rightarrow>
                     bind_e (map_steps xs 0) (\<lambda>steps.
                     bind_e (getProp parsed ''estimatedDuration'') (\<lambda>d.
                       Inr \<lparr>plan_steps = steps,
                            plan_estimatedDuration = js_or d (JNum 300)\<rparr>))
                 | _ \<Rightarrow> Inl TypeError)))"

definition parsePlanResponse :: "(string \<Rightarrow> jsval option) \<Rightarrow> string \<Rightarrow> exn + Plan" where
  "parsePlanResponse parse response =
     (case parsePlanResponse_try parse response of
        Inl e \<Rightarrow> Inl (Err ''Invalid plan response format'')
      | Inr plan \<Rightarrow> Inr plan)"

definition mkStep :: "string \<Rightarrow> string \<Rightarrow> string \<Rightarrow> string \<Rightarrow> (string \<times> jsval) list \<Rightarrow> TaskStep" where
  "mkStep i n d t ps =
     \<lparr>step_id = JStr i, step_name = JStr n, step_description = JStr d, step_type = JStr t,
      step_status = Pending, step_result = None, step_error = None,
      step_parameters = JObj ps\<rparr>"

text \<open>
  \<^verbatim>\<open>createDefaultPlan\<close>: the hand-written steps for the task type. The branches that read
  \<^verbatim>\<open>params.code\<close>, \<^verbatim>\<open>params.description\<close>, ... throw when \<^verbatim>\<open>params\<close> is \<^verbatim>\<open>null\<close> or
  \<^verbatim>\<open>undefined\<close>.
\<close>

definition default_steps :: "TaskType \<Rightarrow> jsval \<Rightarrow> TaskContext \<Rightarrow> exn + TaskStep list" where
  "default_steps t params ctx =
     (case t of
        Refactor \<Rightarrow>
          bind_e (getProp params ''code'') (\<lambda>code.
          bind_e (getProp params ''filePath'') (\<lambda>filePath.
            Inr [mkStep ''step_1'' ''Analyze Code''
                   ''Analyze the selected code for refactoring opportunities'' ''analysis''
                   [(''code'', code), (''language'', opt_js (language ctx))],
                 mkStep ''step_2'' ''Generate Refactored Code''
                   ''Generate improved version of the code'' ''code_generation''
                   [(''originalCode'', code),
                    (''goal'', JStr ''improve readability and maintainability'')],
                 mkStep ''step_3'' ''Apply Changes''
                   ''Apply the refactored code to the file'' ''file_operation''
                   [(''filePath'', filePath), (''operation'', JStr ''replace'')]]))
      | Implement \<Rightarrow>
          bind_e (getProp params ''description'') (\<lambda>description.
            Inr [mkStep ''step_1'' ''Analyze Requirements''
                   ''Analyze the feature requirements'' ''analysis''
                   [(''description'', description)],
                 mkStep ''step_2'' ''Design Solution''
                   ''Design the implementation approach'' ''analysis''
                   [(''context'', context_js ctx)],
                 mkStep ''step_3'' ''Generate Implementation''
                   ''Generate the feature implementation'' ''code_generation''
                   [(''requirements'', description), (''context'', context_js ctx)],
                 mkStep ''step_4'' ''Create Tests''
                   ''Generate tests for the new feature'' ''code_generation''
                   [(''testType'', JStr ''unit''), (''context'', context_js ctx)],
                 mkStep ''step_5'' ''Update Documentation''
                   ''Generate or update project README and docs'' ''documentation'' []])
      | Fix \<Rightarrow>
          bind_e (getProp params ''errorMessage'') (\<lambda>errorMessage.
          bind_e (getProp params ''stackTrace'') (\<lambda>stackTrace.
          bind_e (getProp params ''code'') (\<lambda>code.
          bind_e (getProp params ''filePath'') (\<lambda>filePath.
            Inr [mkStep ''step_1'' ''Analyze Error''
                   ''Analyze the error message and stack trace'' ''analysis''
                   [(''errorMessage'', errorMessage), (''stackTrace'', stackTrace)],
                 mkStep ''step_2'' ''Generate Fix''
                   ''Generate the fix for the identified issue'' ''code_generation''
                   [(''originalCode'', code), (''error'', errorMessage)],
                 mkStep ''step_3'' ''Apply Fix''
                   ''Apply the fix to the file'' ''file_operation''
                   [(''filePath'', filePath), (''operation'', JStr ''replace'')]]))))
      | Review \<Rightarrow>
          bind_e (getProp params ''code'') (\<lambda>code.
            Inr [mkStep ''step_1'' ''Code Analysis''
                   ''Analyze the code for quality, security, and performance issues''
                   ''analysis''
                   [(''code'', code), (''language'', opt_js (language ctx))],
                 mkStep ''step_2'' ''Generate Review Report''
                   ''Generate a comprehensive code review report'' ''code_generation''
                   [(''reviewType'', JStr ''comprehensive''), (''code'', code)]])
      | _ \<Rightarrow>
          Inr [mkStep ''step_1'' ''Analyze Task''
                 ''Analyze the task requirements'' ''analysis''
                 [(''taskType'', JStr (type_name t)), (''params'', params)],
               mkStep ''step_2'' ''Execute Task''
                 ''Execute the requested task'' ''code_generation''
                 [(''taskType'', JStr (type_name t)), (''params'', params),
                  (''context'', context_js ctx)]])"

definition createDefaultPlan :: "TaskType \<Rightarrow> jsval \<Rightarrow> TaskContext \<Rightarrow> exn + Plan" where
  "createDefaultPlan t params ctx =
     bind_e (default_steps t params ctx) (\<lambda>steps.
       Inr \<lparr>plan_steps = steps,
            plan_estimatedDuration = JNum (int (length steps) * 60)\<rparr>)"

text \<open>
  \<^verbatim>\<open>createPlan\<close>. \<open>llm\<close> is the outcome of \<^verbatim>\<open>await this.llm.generate(prompt)\<close>: the
  answer, or the error it rejected with. The prompt is text for the provider only. The
  \<^verbatim>\<open>catch\<close> covers the LLM call and the parsing; what \<^verbatim>\<open>createDefaultPlan\<close> throws
  leaves \<^verbatim>\<open>createPlan\<close>.
\<close>

definition createPlan ::
  "(string \<Rightarrow> jsval option) \<Rightarrow> TaskType \<Rightarrow> jsval \<Rightarrow> TaskContext \<Rightarrow> exn + string \<Rightarrow> exn + Plan" where
  "createPlan parse t params ctx llm =
     (case llm of
        Inl e \<Rightarrow> createDefaultPlan t params ctx
      | Inr response \<Rightarrow>
          (case parsePlanResponse parse response of
             Inl e \<Rightarrow> createDefaultPlan t params ctx
           | Inr plan \<Rightarrow> Inr plan))"

section \<open>CodeExecutor: the file path of a file operation (agent/executor.ts)\<close>


section \<open>CodeCompanionManager (manager.ts)\<close>

record Task =
  task_id :: string
  task_type :: TaskType
  task_params :: jsval
  task_status :: TaskStatus
  task_error :: "exn option"
  task_steps :: "TaskStep list"
  task_context :: "TaskContext option"
  task_estimatedDuration :: "jsval option"
  task_currentStep :: "nat option"

record TaskResult =
  res_taskId :: string
  res_type :: TaskType
  res_success :: bool
  res_results :: "jsval list option"
  res_steps :: "TaskStep list"
  res_error :: "exn option"
  res_context :: "TaskContext option"
  res_params :: jsval

text \<open>
  The manager's state. A \<^verbatim>\<open>Task\<close> object is shared between the \<^verbatim>\<open>activeTasks\<close> map
  and the local variable of the \<^verbatim>\<open>executeTask\<close> call that created it, and it lives on
  after \<^verbatim>\<open>activeTasks.delete\<close>; so the objects are kept in a store (\<open>heap\<close>, from
  references to objects, with \<open>nextRef\<close> the next unused reference) and the map holds
  references. The output channel, the status bar commands and the copy of the history in
  \<^verbatim>\<open>globalState\<close> are written and never read by this code; they are left out.
\<close>

record manager =
  heap :: "nat \<Rightarrow> Task"
  nextRef :: nat
  activeTasks :: "string \<Rightarrow> nat option"
  taskHistory :: "TaskResult list"

definition getTaskById :: "string \<Rightarrow> manager \<Rightarrow> Task option" where
  "getTaskById taskId m = map_option (heap m) (activeTasks m taskId)"

definition getTaskHistory :: "manager \<Rightarrow> TaskResult list" where
  "getTaskHistory m = taskHistory m"

definition updTask :: "nat \<Rightarrow> (Task \<Rightarrow> Task) \<Rightarrow> manager \<Rightarrow> manager" where
  "updTask r f m = m\<lparr>heap := (heap m)(r := f (heap m r))\<rparr>"

definition cancelTask :: "string \<Rightarrow> manager \<Rightarrow> bool \<times> manager" where
  "cancelTask taskId m =
     (case activeTasks m taskId of
        None \<Rightarrow> (False, m)
      | Some r \<Rightarrow>
          (True, (updTask r (\<lambda>t. t\<lparr>task_status := Cancelled\<rparr>) m)
                   \<lparr>activeTasks := (activeTasks m)(taskId := None)\<rparr>))"

text \<open>\<^verbatim>\<open>pushToHistory\<close>: push, then \<^verbatim>\<open>shift\<close> when the length exceeds 50.\<close>

definition pushToHistory :: "TaskResult \<Rightarrow> TaskResult list \<Rightarrow> TaskResult list" where
  "pushToHistory res h = (let h' = h @ [res] in if length h' > 50 then tl h' else h')"

text \<open>
  The terminal block of both outcomes: \<^verbatim>\<open>this.pushToHistory(taskResult);
  this.activeTasks.delete(taskId)\<close>, with no \<^verbatim>\<open>await\<close> between the two.
\<close>

definition finish :: "string \<Rightarrow> TaskResult \<Rightarrow> manager \<Rightarrow> manager" where
  "finish taskId res m =
     m\<lparr>taskHistory := pushToHistory res (taskHistory m),
       activeTasks := (activeTasks m)(taskId := None)\<rparr>"

text \<open>
  What the manager awaits. \<open>'w\<close> is the state of everything outside it (workspace, editor,
  LLM provider, file system, the user). Each awaited call reads that state and leaves a
  new one. \<open>cancelRequested\<close> says whether, while the call was pending, the user
  interface called \<^verbatim>\<open>cancelTask\<close> for this task. \<open>JSON_parse\<close> is \<^verbatim>\<open>JSON.parse\<close>.
\<close>

record 'w env =
  analyze :: "'w \<Rightarrow> jsval \<Rightarrow> (exn + TaskContext) \<times> 'w"
  generate :: "'w \<Rightarrow> (exn + string) \<times> 'w"
  JSON_parse :: "string \<Rightarrow> jsval option"
  executeStep :: "'w \<Rightarrow> TaskStep \<Rightarrow> TaskContext \<Rightarrow> (exn + jsval) \<times> 'w"
  cancelRequested :: "'w \<Rightarrow> bool \<times> 'w"

text \<open>
  The state of one run of \<^verbatim>\<open>executeTask\<close> or \<^verbatim>\<open>runCustomPlan\<close>: the manager, the
  outside, the local \<^verbatim>\<open>results\<close> array, and \<open>rs_writes\<close>, the list of the assignments
  to \<^verbatim>\<open>step.status\<close> in the order they were made (index of the step, value written).
\<close>

record 'w rstate =
  rs_mgr :: manager
  rs_world :: 'w
  rs_results :: "jsval list"
  rs_writes :: "(nat \<times> StepStatus) list"

definition await :: "'w env \<Rightarrow> string \<Rightarrow> 'w rstate \<Rightarrow> 'w rstate" where
  "await env taskId st =
     (let (c, w') = cancelRequested env (rs_world st) in
      st\<lparr>rs_world := w',
         rs_mgr := (if c then snd (cancelTask taskId (rs_mgr st)) else rs_mgr st)\<rparr>)"

fun map_at :: "nat \<Rightarrow> ('a \<Rightarrow> 'a) \<Rightarrow> 'a list \<Rightarrow> 'a list" where
  "map_at i f [] = []"
| "map_at 0 f (x # xs) = f x # xs"
| "map_at (Suc i) f (x # xs) = x # map_at i f xs"

fun nth_opt :: "'a list \<Rightarrow> nat \<Rightarrow> 'a option" where
  "nth_opt [] i = None"
| "nth_opt (x # xs) 0 = Some x"
| "nth_opt (x # xs) (Suc i) = nth_opt xs i"

definition updStep :: "nat \<Rightarrow> nat \<Rightarrow> (TaskStep \<Rightarrow> TaskStep) \<Rightarrow> manager \<Rightarrow> manager" where
  "updStep r i f m = updTask r (\<lambda>t. t\<lparr>task_steps := map_at i f (task_steps t)\<rparr>) m"

text \<open>\<^verbatim>\<open>step.status = s\<close> on step \<open>i\<close> of the task at \<open>r\<close>; the write is recorded.\<close>

definition setStepStatus :: "nat \<Rightarrow> nat \<Rightarrow> StepStatus \<Rightarrow> 'w rstate \<Rightarrow> 'w rstate" where
  "setStepStatus r i s st =
     st\<lparr>rs_mgr := updStep r i (\<lambda>x. x\<lparr>step_status := s\<rparr>) (rs_mgr st),
        rs_writes := rs_writes st @ [(i, s)]\<rparr>"

text \<open>The inner \<^verbatim>\<open>catch\<close>: \<^verbatim>\<open>step.status = 'failed'; step.error = message\<close>.\<close>

definition failStep :: "nat \<Rightarrow> nat \<Rightarrow> exn \<Rightarrow> 'w rstate \<Rightarrow> 'w rstate" where
  "failStep r i e st =
     (let st1 = setStepStatus r i Failed st in
      st1\<lparr>rs_mgr := updStep r i (\<lambda>x. x\<lparr>step_error := Some e\<rparr>) (rs_mgr st1)\<rparr>)"

text \<open>
  After the executor returned: \<^verbatim>\<open>step.status = 'completed'; step.result = result;
  results.push(result); this.updateTaskProgress(task, i + 1, task.steps.length)\<close>.
\<close>

definition completeStep :: "nat \<Rightarrow> nat \<Rightarrow> jsval \<Rightarrow> 'w rstate \<Rightarrow> 'w rstate" where
  "completeStep r i res st =
     (let st1 = setStepStatus r i Completed st in
      st1\<lparr>rs_mgr := updTask r (\<lambda>t. t\<lparr>task_currentStep := Some (i + 1)\<rparr>)
                      (updStep r i (\<lambda>x. x\<lparr>step_result := Some res\<rparr>) (rs_mgr st1)),
          rs_results := rs_results st1 @ [res]\<rparr>)"

definition unsafe_error :: "SafetyValidation \<Rightarrow> exn" where
  "unsafe_error v =
     Err (''Safety validation failed: '' @ (case reason v of None \<Rightarrow> ''undefined'' | Some x \<Rightarrow> x))"

definition cancelled_error :: exn where
  "cancelled_error = Err ''Task cancelled by user''"

text \<open>
  \<^verbatim>\<open>for (let i = 0; i < task.steps.length; i++) { body }\<close>, from index \<open>i\<close> with \<open>k\<close>
  iterations left (\<^verbatim>\<open>task.steps.length\<close> does not change while the loop runs, so \<open>k\<close> is
  that length minus \<open>i\<close>). A body returns the error it threw, if it threw one; the loop
  returns the error that left it.
\<close>

fun for_steps ::
  "(nat \<Rightarrow> 'w rstate \<Rightarrow> exn option \<times> 'w rstate) \<Rightarrow> nat \<Rightarrow> nat \<Rightarrow> 'w rstate
     \<Rightarrow> exn option \<times> 'w rstate" where
  "for_steps body 0 i st = (None, st)"
| "for_steps body (Suc k) i st =
     (case body i st of
        (Some e, st') \<Rightarrow> (Some e, st')
      | (None, st') \<Rightarrow> for_steps body k (Suc i) st')"

text \<open>
  The inner \<^verbatim>\<open>catch\<close> of \<^verbatim>\<open>executeTask\<close>: it logs \<^verbatim>\<open>Step failed: ${step.id} - ...\<close>
  first, so when the id has no string the \<^verbatim>\<open>TypeError\<close> of the log call leaves the
  \<^verbatim>\<open>catch\<close> before the step is touched; otherwise the step is marked failed and the error
  thrown again.
\<close>

definition catchStep :: "jsval \<Rightarrow> nat \<Rightarrow> nat \<Rightarrow> exn \<Rightarrow> 'w rstate \<Rightarrow> exn option \<times> 'w rstate" where
  "catchStep sid r i e st =
     (case template sid of
        Inl e' \<Rightarrow> (Some e', st)
      | Inr shown \<Rightarrow> (Some e, failStep r i e st))"

text \<open>
  The loop body of \<^verbatim>\<open>executeTask\<close>. The validator is called inside the inner \<^verbatim>\<open>try\<close>:
  what it throws, and the error for an unsafe step, reach the inner \<^verbatim>\<open>catch\<close>, which
  marks the step failed. \<^verbatim>\<open>validateStep\<close> has no \<^verbatim>\<open>await\<close> of its own, so its result is
  fixed when it is called; the caller's \<^verbatim>\<open>await\<close> follows. The two log calls of the
  \<^verbatim>\<open>try\<close> block that print \<^verbatim>\<open>${step.id}\<close> (before the throw for an unsafe step, and after
  the step is completed) throw into the same \<^verbatim>\<open>catch\<close> when the id has no string.
\<close>

definition stepBody ::
  "'w env \<Rightarrow> string \<Rightarrow> nat \<Rightarrow> TaskContext \<Rightarrow> nat \<Rightarrow> 'w rstate \<Rightarrow> exn option \<times> 'w rstate" where
  "stepBody env taskId r ctx i st =
     (if activeTasks (rs_mgr st) taskId = None then (Some cancelled_error, st)
      else
        case nth_opt (task_steps (heap (rs_mgr st) r)) i of
          None \<Rightarrow> (None, st)
        | Some s \<Rightarrow>
            (let step = s\<lparr>step_status := Running\<rparr>;
                 validation = validateStep step ctx;
                 st1 = await env taskId (setStepStatus r i Running st)
             in case validation of
                  Inl e \<Rightarrow> catchStep (step_id s) r i e st1
                | Inr v \<Rightarrow>
                    if \<not> safe v then
                      (case template (step_id s) of
                         Inl e \<Rightarrow> catchStep (step_id s) r i e st1
                       | Inr shown \<Rightarrow> catchStep (step_id s) r i (unsafe_error v) st1)
                    else
                      (let out = executeStep env (rs_world st1) step ctx;
                           st2 = await env taskId (st1\<lparr>rs_world := snd out\<rparr>)
                       in case fst out of
                            Inl e \<Rightarrow> catchStep (step_id s) r i e st2
                          | Inr res \<Rightarrow>
                              (case template (step_id s) of
                                 Inl e \<Rightarrow> catchStep (step_id s) r i e (completeStep r i res st2)
                               | Inr shown \<Rightarrow> (None, completeStep r i res st2)))))"

definition stepLoop ::
  "'w env \<Rightarrow> string \<Rightarrow> nat \<Rightarrow> TaskContext \<Rightarrow> nat \<Rightarrow> nat \<Rightarrow> 'w rstate \<Rightarrow> exn option \<times> 'w rstate" where
  "stepLoop env taskId r ctx k i st = for_steps (stepBody env taskId r ctx) k i st"

text \<open>
  The loop body of \<^verbatim>\<open>runCustomPlan\<close>. Here the validator is called before the inner
  \<^verbatim>\<open>try\<close>, which holds the executor call alone; and \<^verbatim>\<open>task.steps[i]!\<close> is used without
  the test for a missing element.
\<close>

definition customBody ::
  "'w env \<Rightarrow> string \<Rightarrow> nat \<Rightarrow> TaskContext \<Rightarrow> nat \<Rightarrow> 'w rstate \<Rightarrow> exn option \<times> 'w rstate" where
  "customBody env taskId r ctx i st =
     (if activeTasks (rs_mgr st) taskId = None then (Some cancelled_error, st)
      else
        case nth_opt (task_steps (heap (rs_mgr st) r)) i of
          None \<Rightarrow> (Some TypeError, st)
        | Some s \<Rightarrow>
            (let step = s\<lparr>step_status := Running\<rparr>;
                 validation = validateStep step ctx;
                 st1 = await env taskId (setStepStatus r i Running st)
             in case validation of
                  Inl e \<Rightarrow> (Some e, st1)
                | Inr v \<Rightarrow>
                    if \<not> safe v then (Some (unsafe_error v), st1)
                    else
                      (let out = executeStep env (rs_world st1) step ctx;
                           st2 = await env taskId (st1\<lparr>rs_world := snd out\<rparr>)
                       in case fst out of
                            Inl e \<Rightarrow> (Some e, failStep r i e st2)
                          | Inr res \<Rightarrow> (None, completeStep r i res st2))))"

definition customLoop ::
  "'w env \<Rightarrow> string \<Rightarrow> nat \<Rightarrow> TaskContext \<Rightarrow> nat \<Rightarrow> nat \<Rightarrow> 'w rstate \<Rightarrow> exn option \<times> 'w rstate" where
  "customLoop env taskId r ctx k i st = for_steps (customBody env taskId r ctx) k i st"

text \<open>
  The outer \<^verbatim>\<open>catch\<close> of both methods: the task is marked failed with the error, the
  failed result is pushed to the history, the task leaves the active map, and the error
  is thrown on. The result holds the steps as they are at this moment. In the code it
  holds the task's own array (\<^verbatim>\<open>steps: task.steps\<close>); the manager does not write to the
  steps of a task whose run has ended, and the step lists handed to \<^verbatim>\<open>runCustomPlan\<close> are
  values here (the chat view sends a JSON copy), so the two agree. A caller that hands
  the array of a history entry itself to \<^verbatim>\<open>runCustomPlan\<close> is outside this model.
\<close>

definition taskFailed ::
  "TaskType \<Rightarrow> jsval \<Rightarrow> string \<Rightarrow> nat \<Rightarrow> exn \<Rightarrow> 'w rstate \<Rightarrow> (exn + TaskResult) \<times> 'w rstate" where
  "taskFailed t params taskId r e st =
     (let m1 = updTask r (\<lambda>x. x\<lparr>task_status := TaskFailed, task_error := Some e\<rparr>) (rs_mgr st);
          res = \<lparr>res_taskId = taskId, res_type = t, res_success = False, res_results = None,
                 res_steps = task_steps (heap m1 r), res_error = task_error (heap m1 r),
                 res_context = task_context (heap m1 r), res_params = params\<rparr>
      in (Inl e, st\<lparr>rs_mgr := finish taskId res m1\<rparr>))"

text \<open>
  The end of the \<^verbatim>\<open>try\<close> block of both methods, after the loop; the steps of the result
  as in the failed one.
\<close>

definition taskSucceeded ::
  "TaskType \<Rightarrow> jsval \<Rightarrow> string \<Rightarrow> nat \<Rightarrow> TaskContext \<Rightarrow> 'w rstate \<Rightarrow> (exn + TaskResult) \<times> 'w rstate" where
  "taskSucceeded t params taskId r ctx st =
     (let m1 = updTask r (\<lambda>x. x\<lparr>task_status := TaskCompleted\<rparr>) (rs_mgr st);
          res = \<lparr>res_taskId = taskId, res_type = t, res_success = True,
                 res_results = Some (rs_results st), res_steps = task_steps (heap m1 r),
                 res_error = None, res_context = Some ctx, res_params = params\<rparr>
      in (Inr res, st\<lparr>rs_mgr := finish taskId res m1\<rparr>))"

text \<open>
  The head of both methods: the new task object, \<^verbatim>\<open>this.activeTasks.set(taskId, task)\<close>.
  \<open>taskId\<close> is what \<^verbatim>\<open>generateTaskId()\<close> returned (a time stamp and a random suffix).
\<close>

definition register :: "string \<Rightarrow> Task \<Rightarrow> manager \<Rightarrow> manager" where
  "register taskId task m =
     m\<lparr>heap := (heap m)(nextRef m := task), nextRef := Suc (nextRef m),
       activeTasks := (activeTasks m)(taskId := Some (nextRef m))\<rparr>"

definition executeTask ::
  "'w env \<Rightarrow> TaskType \<Rightarrow> jsval \<Rightarrow> string \<Rightarrow> manager \<Rightarrow> 'w \<Rightarrow> (exn + TaskResult) \<times> 'w rstate" where
  "executeTask env t params taskId m w =
     (let r = nextRef m;
          task = \<lparr>task_id = taskId, task_type = t, task_params = params, task_status = Planning,
                  task_error = None, task_steps = [], task_context = None,
                  task_estimatedDuration = None, task_currentStep = None\<rparr>;
          m0 = updTask r (\<lambda>x. x\<lparr>task_status := Analyzing\<rparr>) (register taskId task m);
          a = analyze env w params;
          st1 = await env taskId
                  \<lparr>rs_mgr = m0, rs_world = snd a, rs_results = [], rs_writes = []\<rparr>
      in case fst a of
           Inl e \<Rightarrow> taskFailed t params taskId r e st1
         | Inr ctx \<Rightarrow>
             (let m2 = updTask r (\<lambda>x. x\<lparr>task_context := Some ctx, task_status := Planning\<rparr>)
                         (rs_mgr st1);
                  llm = generate env (rs_world st1);
                  st3 = await env taskId (st1\<lparr>rs_mgr := m2, rs_world := snd llm\<rparr>)
              in case createPlan (JSON_parse env) t params ctx (fst llm) of
                   Inl e \<Rightarrow> taskFailed t params taskId r e st3
                 | Inr plan \<Rightarrow>
                     (let m4 = updTask r
                                 (\<lambda>x. x\<lparr>task_steps := plan_steps plan,
                                         task_estimatedDuration := Some (plan_estimatedDuration plan),
                                         task_status := Executing\<rparr>)
                                 (rs_mgr st3)
                      in case stepLoop env taskId r ctx (length (plan_steps plan)) 0
                                (st3\<lparr>rs_mgr := m4\<rparr>) of
                           (Some e, st5) \<Rightarrow> taskFailed t params taskId r e st5
                         | (None, st5) \<Rightarrow> taskSucceeded t params taskId r ctx st5)))"

definition runCustomPlan ::
  "'w env \<Rightarrow> TaskType \<Rightarrow> jsval \<Rightarrow> TaskStep list \<Rightarrow> string \<Rightarrow> manager \<Rightarrow> 'w
     \<Rightarrow> (exn + TaskResult) \<times> 'w rstate" where
  "runCustomPlan env t params customSteps taskId m w =
     (let r = nextRef m;
          task = \<lparr>task_id = taskId, task_type = t, task_params = params, task_status = Executing,
                  task_error = None, task_steps = customSteps, task_context = None,
                  task_estimatedDuration = None, task_currentStep = None\<rparr>;
          m0 = register taskId task m;
          a = analyze env w params;
          st1 = await env taskId
                  \<lparr>rs_mgr = m0, rs_world = snd a, rs_results = [], rs_writes = []\<rparr>
      in case fst a of
           Inl e \<Rightarrow> taskFailed t params taskId r e st1
         | Inr ctx \<Rightarrow>
             (let m2 = updTask r (\<lambda>x. x\<lparr>task_context := Some ctx\<rparr>) (rs_mgr st1)
              in case customLoop env taskId r ctx (length customSteps) 0 (st1\<lparr>rs_mgr := m2\<rparr>) of
                   (Some e, st5) \<Rightarrow> taskFailed t params taskId r e st5
                 | (None, st5) \<Rightarrow> taskSucceeded t params taskId r ctx st5))"





text \<open>
  The order of the statuses of a step, in the words of the data model: pending, then
  running, then completed or failed. A list of statuses moves forward when each one is
  one rank above the one before: no step back, and none from pending to an end status.
\<close>

fun rank :: "StepStatus \<Rightarrow> nat" where
  "rank Pending = 0"
| "rank Running = 1"
| "rank Completed = 2"
| "rank Failed = 2"

fun forward :: "StepStatus list \<Rightarrow> bool" where
  "forward [] = True"
| "forward [a] = True"
| "forward (a # b # xs) = (rank b = Suc (rank a) \<and> forward (b # xs))"

text \<open>
  The values written to the status of step \<open>j\<close>, in order; and the statuses the step went
  through: the one it started with, then each one written.
\<close>

definition writes_of :: "nat \<Rightarrow> (nat \<times> StepStatus) list \<Rightarrow> StepStatus list" where
  "writes_of j ws = map snd (filter (\<lambda>e. fst e = j) ws)"

definition statuses_of :: "nat \<Rightarrow> TaskStep list \<Rightarrow> (nat \<times> StepStatus) list \<Rightarrow> StepStatus list" where
  "statuses_of j steps0 ws =
     (case nth_opt steps0 j of None \<Rightarrow> [] | Some s \<Rightarrow> [step_status s]) @ writes_of j ws"

text \<open>
  Two manager states agree outside one task id: the same history, and the same entry of
  the active map for every other id.
\<close>

definition same_outside :: "string \<Rightarrow> manager \<Rightarrow> manager \<Rightarrow> bool" where
  "same_outside taskId m m' \<longleftrightarrow>
     taskHistory m' = taskHistory m \<and> (\<forall>k. k \<noteq> taskId \<longrightarrow> activeTasks m' k = activeTasks m k)"

text \<open>No task id is both in the active map and in the history.\<close>

definition ids_disjoint :: "manager \<Rightarrow> bool" where
  "ids_disjoint m \<longleftrightarrow> (\<forall>res \<in> set (taskHistory m). activeTasks m (res_taskId res) = None)"

text \<open>
  The writes one iteration for step \<open>i\<close> can make: none, \<open>running\<close>, or \<open>running\<close> and
  then one of \<open>completed\<close> and \<open>failed\<close>.
\<close>

definition step_shape :: "nat \<Rightarrow> (nat \<times> StepStatus) list \<Rightarrow> bool" where
  "step_shape i L \<longleftrightarrow> L = [] \<or> L = [(i, Running)] \<or> L = [(i, Running), (i, Completed)]
      \<or> L = [(i, Running), (i, Failed)]"

text \<open>
  What a finished call of \<^verbatim>\<open>executeTask\<close> or \<^verbatim>\<open>runCustomPlan\<close> for \<open>taskId\<close>, started
  in the manager state \<open>m\<close>, leaves behind: one result for \<open>taskId\<close> pushed to the history
  (a failure with the error thrown, or the success returned), and \<open>taskId\<close> gone from the
  active map, which is otherwise as it was.
\<close>

definition ended :: "string \<Rightarrow> manager \<Rightarrow> (exn + TaskResult) \<times> 'w rstate \<Rightarrow> bool" where
  "ended taskId m out \<longleftrightarrow>
     (\<exists>res. res_taskId res = taskId
        \<and> (case fst out of Inl e \<Rightarrow> \<not> res_success res \<and> res_error res = Some e
                          | Inr res' \<Rightarrow> res' = res \<and> res_success res)
        \<and> taskHistory (rs_mgr (snd out)) = pushToHistory res (taskHistory m)
        \<and> activeTasks (rs_mgr (snd out)) = (activeTasks m)(taskId := None))"

text \<open>
  The statuses in the store agree with the recorded writes: the steps of the task at \<open>r\<close>
  are as many as \<open>steps0\<close>, and the status of each is the last value written to it, or
  the status it had in \<open>steps0\<close> when none was written.
\<close>

definition tracked :: "TaskStep list \<Rightarrow> nat \<Rightarrow> 'w rstate \<Rightarrow> bool" where
  "tracked steps0 r st \<longleftrightarrow>
     length (task_steps (heap (rs_mgr st) r)) = length steps0
     \<and> (\<forall>j < length steps0.
           step_status (task_steps (heap (rs_mgr st) r) ! j)
             = last (step_status (steps0 ! j) # writes_of j (rs_writes st)))"

section \<open>Sample inputs\<close>

text \<open>The concrete steps, contexts and runs at which the theorems below are evaluated.\<close>

definition demo_context :: TaskContext where
  "demo_context =
     \<lparr>workspaceRoot = Some ''/home/u/proj'', currentFile = Some ''/etc/passwd'',
      language = None, projectType = None, gitInfo = None\<rparr>"


definition rm_step :: TaskStep where
  "rm_step = mkStep ''step_1'' ''Clean'' [] ''terminal_command''
               [(''command'', JStr ''rm -rf /tmp/x'')]"

definition rm_step_with_path :: TaskStep where
  "rm_step_with_path = mkStep ''step_1'' ''Clean'' [] ''terminal_command''
               [(''command'', JStr ''rm -rf /tmp/x''), (''filePath'', JStr ''/etc/passwd'')]"







definition blank_task :: Task where
  "blank_task =
     \<lparr>task_id = [], task_type = Test, task_params = JUndefined, task_status = Planning,
      task_error = None, task_steps = [], task_context = None,
      task_estimatedDuration = None, task_currentStep = None\<rparr>"

text \<open>The manager after its constructor, with no persisted history.\<close>

definition new_manager :: manager where
  "new_manager =
     \<lparr>heap = (\<lambda>r. blank_task), nextRef = 0, activeTasks = (\<lambda>k. None), taskHistory = []\<rparr>"

text \<open>
  Two stand-ins for \<^verbatim>\<open>JSON.parse\<close>: one for runs in which it is never called (the answer
  holds no braces, or there is no answer), and one that knows the value of a single text.
\<close>

definition parse_nothing :: "string \<Rightarrow> jsval option" where
  "parse_nothing s = None"

definition parse_known :: "string \<Rightarrow> jsval \<Rightarrow> string \<Rightarrow> jsval option" where
  "parse_known text json s = (if s = text then Some json else None)"

text \<open>
  An outside that counts the awaits: the context is \<open>demo_context\<close>, the LLM answers with
  \<open>answer\<close>, every step the executor is given succeeds with the result \<^verbatim>\<open>"ok"\<close>, and
  the user cancels the task during the await number \<open>cancelAt\<close> (counted from 0).
\<close>

definition demo_env :: "exn + string \<Rightarrow> (string \<Rightarrow> jsval option) \<Rightarrow> nat \<Rightarrow> nat env" where
  "demo_env answer parse cancelAt =
     \<lparr>analyze = (\<lambda>w p. (Inr demo_context, w)),
      generate = (\<lambda>w. (answer, w)),
      JSON_parse = parse,
      executeStep = (\<lambda>w step ctx. (Inr (JStr ''ok''), w)),
      cancelRequested = (\<lambda>w. (w = cancelAt, Suc w))\<rparr>"

definition offline :: "exn + string" where
  "offline = Inl (Err ''connect ECONNREFUSED'')"

definition implement_params :: jsval where
  "implement_params = JObj [(''description'', JStr ''add a feature'')]"

text \<open>
  The run of the first claim: the LLM is unreachable, so the plan is the default plan of
  an \<^verbatim>\<open>implement\<close> task (five steps); the awaits are those of the context (0), the plan
  (1), and the validator and the executor of each step (2 and 3 for the first step, 4 and
  5 for the second); the user cancels while the executor runs the second step.
\<close>

definition cancelled_run :: "(exn + TaskResult) \<times> nat rstate" where
  "cancelled_run =
     executeTask (demo_env offline parse_nothing 5) Implement implement_params ''task_1''
       new_manager 0"

text \<open>
  A plan whose first step is the dangerous command: as the LLM's answer to
  \<^verbatim>\<open>executeTask\<close>, and as the steps handed to \<^verbatim>\<open>runCustomPlan\<close>. Nobody cancels.
\<close>

definition unsafe_plan_text :: string where
  \<open>unsafe_plan_text =
     ''{"steps": [{"type": "terminal_command", "parameters": {"command": "rm -rf /tmp/x"}}, {"type": "analysis"}]}''\<close>

definition unsafe_plan_json :: jsval where
  "unsafe_plan_json =
     JObj [(''steps'',
            JArr [JObj [(''type'', JStr ''terminal_command''),
                        (''parameters'', JObj [(''command'', JStr ''rm -rf /tmp/x'')])],
                  JObj [(''type'', JStr ''analysis'')]])]"

definition unsafe_planned_run :: "(exn + TaskResult) \<times> nat rstate" where
  "unsafe_planned_run =
     executeTask (demo_env (Inr unsafe_plan_text) (parse_known unsafe_plan_text unsafe_plan_json) 1000)
       Implement implement_params ''task_1'' new_manager 0"

definition unsafe_custom_run :: "(exn + TaskResult) \<times> nat rstate" where
  "unsafe_custom_run =
     runCustomPlan (demo_env offline parse_nothing 1000) Implement implement_params
       [rm_step, mkStep ''step_2'' ''Step 2'' [] ''analysis'' []] ''task_1'' new_manager 0"

text \<open>
  A step as the chat view hands it back from a finished task (the steps of a result are
  offered for editing with the status they ended with), and its second run.
\<close>

definition done_step :: TaskStep where
  "done_step = (mkStep ''step_1'' ''Analyze Task'' [] ''analysis'' [])
                 \<lparr>step_status := Completed, step_result := Some (JStr ''ok'')\<rparr>"

definition rerun :: "(exn + TaskResult) \<times> nat rstate" where
  "rerun =
     runCustomPlan (demo_env offline parse_nothing 1000) Implement implement_params [done_step]
       ''task_2'' new_manager 0"

text \<open>The answer with an empty plan, and what \<^verbatim>\<open>JSON.parse\<close> makes of it.\<close>

definition empty_plan_text :: string where
  \<open>empty_plan_text = ''{"steps": []}''\<close>

definition empty_plan_json :: jsval where
  "empty_plan_json = JObj [(''steps'', JArr [])]"

text \<open>The result of the \<open>n\<close>-th task, for the history.\<close>

definition demo_result :: "nat \<Rightarrow> TaskResult" where
  "demo_result n =
     \<lparr>res_taskId = ''task_'' @ nat_to_string n, res_type = Test, res_success = True,
      res_results = Some [], res_steps = [], res_error = None, res_context = None,
      res_params = JObj []\<rparr>"

text \<open>
  The \<open>n\<close>-th task a caller submits: a \<^verbatim>\<open>review\<close> task under the id \<^verbatim>\<open>task_n\<close>.
\<close>

definition demo_id :: "nat \<Rightarrow> string" where
  "demo_id n = ''task_'' @ nat_to_string n"


section \<open>Properties of the safety validator\<close>

lemma bind_e_Inl [simp]: "bind_e (Inl e) f = Inl e"
  by (simp add: bind_e_def)

lemma bind_e_Inr [simp]: "bind_e (Inr x) f = f x"
  by (simp add: bind_e_def)

lemma template_JStr [simp]: "template (JStr s) = Inr s"
  by (simp add: template_def)

lemma some_includes_str [simp]:
  "some_includes (JStr s) ts = Inr (\<exists>t \<in> set ts. sublist t s)"
  by (induction ts) (auto split: bool.splits)

declare some_includes.simps [simp del]

lemma dangerous_lower: "t \<in> set dangerousOperations \<Longrightarrow> toLowerCase t = t"
  by (auto simp: dangerousOperations_def toLowerCase_def lower_char_def)

lemma dangerous_found:
  assumes "t \<in> set dangerousOperations" and "sublist t cmd"
  shows "some_includes (JStr (toLowerCase cmd)) dangerousOperations = Inr True"
proof -
  have "sublist (toLowerCase t) (toLowerCase cmd)"
    using assms(2) unfolding toLowerCase_def by (rule map_mono_sublist)
  then have "sublist t (toLowerCase cmd)"
    using dangerous_lower [OF assms(1)] by simp
  then show ?thesis
    using assms(1) by auto
qed


lemma check_git_safe [simp]: "safe (check_git step ctx v) = safe v"
  by (simp add: check_git_def)

lemma check_git_reason [simp]: "reason (check_git step ctx v) = reason v"
  by (simp add: check_git_def)

lemma check_large_keeps:
  "check_large step v = Inr v' \<Longrightarrow> safe v' = safe v \<and> reason v' = reason v"
  by (cases "getProp (step_parameters step) ''content''")
     (auto simp: check_large_def split: if_splits)

lemma check_recursive_keeps:
  "check_recursive step v = Inr v' \<Longrightarrow> safe v' = safe v \<and> reason v' = reason v"
  by (cases "getProp (step_parameters step) ''command''")
     (auto simp: check_recursive_def Let_def bind_e_def split: if_splits sum.splits)

lemma check_sensitive_mono: "check_sensitive step v = Inr v' \<Longrightarrow> \<not> safe v \<Longrightarrow> \<not> safe v'"
  by (auto simp: check_sensitive_def Let_def bind_e_def split: if_splits sum.splits)

lemma check_boundary_mono: "check_boundary step ctx v = Inr v' \<Longrightarrow> \<not> safe v \<Longrightarrow> \<not> safe v'"
  by (auto simp: check_boundary_def Let_def bind_e_def split: if_splits sum.splits option.splits)

lemma validateStep_Inr_iff:
  "validateStep step ctx = Inr v \<longleftrightarrow>
   (\<exists>v1 v2 v3 v5.
      check_dangerous step \<lparr>safe = True, reason = None, warnings = [], recommendations = []\<rparr> = Inr v1
      \<and> check_sensitive step v1 = Inr v2 \<and> check_boundary step ctx v2 = Inr v3
      \<and> check_large step (check_git step ctx v3) = Inr v5 \<and> check_recursive step v5 = Inr v)"
  by (auto simp: validateStep_def bind_e_def split: sum.splits)

lemma validateStep_blocks:
  assumes "validateStep step ctx = Inr v"
  obtains v1 v2 v3 where
    "check_dangerous step \<lparr>safe = True, reason = None, warnings = [], recommendations = []\<rparr> = Inr v1"
    "check_sensitive step v1 = Inr v2" "check_boundary step ctx v2 = Inr v3"
    "safe v = safe v3" "reason v = reason v3"
proof -
  from assms obtain v1 v2 v3 v5 where
    b: "check_dangerous step \<lparr>safe = True, reason = None, warnings = [], recommendations = []\<rparr> = Inr v1"
      "check_sensitive step v1 = Inr v2" "check_boundary step ctx v2 = Inr v3"
      "check_large step (check_git step ctx v3) = Inr v5" "check_recursive step v5 = Inr v"
    unfolding validateStep_Inr_iff by blast
  have "safe v = safe v3 \<and> reason v = reason v3"
    using check_large_keeps [OF b(4)] check_recursive_keeps [OF b(5)] by simp
  with b that show thesis by blast
qed

lemma check_dangerous_other [simp]:
  "step_type step \<noteq> JStr ''terminal_command'' \<Longrightarrow> check_dangerous step v = Inr v"
  by (simp add: check_dangerous_def)

lemma check_recursive_other [simp]:
  "step_type step \<noteq> JStr ''terminal_command'' \<Longrightarrow> check_recursive step v = Inr v"
  by (simp add: check_recursive_def)

lemma check_sensitive_other [simp]:
  "step_type step \<noteq> JStr ''file_operation'' \<Longrightarrow> check_sensitive step v = Inr v"
  by (simp add: check_sensitive_def)

lemma check_large_other [simp]:
  "step_type step \<noteq> JStr ''file_operation'' \<Longrightarrow> check_large step v = Inr v"
  by (simp add: check_large_def)


lemma check_recursive_total:
  assumes "getProp (step_parameters step) ''command'' = Inr c"
    and "c = JUndefined \<or> c = JNull \<or> (\<exists>s. c = JStr s)"
  shows "\<exists>v'. check_recursive step v = Inr v'"
  using assms by (auto simp: check_recursive_def js_or_def)

lemma validateStep_never_safe:
  assumes "check_dangerous step \<lparr>safe = True, reason = None, warnings = [], recommendations = []\<rparr> = Inr v1"
    and "\<not> safe v1" and "validateStep step ctx = Inr v"
  shows "\<not> safe v"
proof -
  from assms(3) obtain w1 w2 w3 where
    b: "check_dangerous step \<lparr>safe = True, reason = None, warnings = [], recommendations = []\<rparr> = Inr w1"
       "check_sensitive step w1 = Inr w2" "check_boundary step ctx w2 = Inr w3" "safe v = safe w3"
    by (rule validateStep_blocks)
  from b(1) assms(1) have "w1 = v1" by simp
  with assms(2) b show ?thesis
    using check_sensitive_mono check_boundary_mono by blast
qed

lemma check_dangerous_hit:
  assumes ty: "step_type step = JStr ''terminal_command''"
    and cmd: "getProp (step_parameters step) ''command'' = Inr (JStr cmd)"
    and t: "t \<in> set dangerousOperations" and sub: "sublist t cmd"
  shows "\<exists>v1. check_dangerous step v = Inr v1 \<and> \<not> safe v1
           \<and> reason v1 = Some (''Dangerous command detected: '' @ cmd)"
  using ty cmd dangerous_found [OF t sub]
  by (simp add: check_dangerous_def lowered_command_def del: some_includes_str)

lemma check_boundary_silent:
  assumes "getProp (step_parameters step) ''filePath'' = Inr fp"
    and "workspaceRoot ctx = None \<or> workspaceRoot ctx = Some [] \<or> \<not> truthy fp
         \<or> (\<exists>p root. fp = JStr p \<and> workspaceRoot ctx = Some root \<and> prefix root p)"
  shows "check_boundary step ctx v = Inr v"
  using assms by (auto simp: check_boundary_def js_or_def split: option.splits)

lemma check_boundary_fires:
  assumes "getProp (step_parameters step) ''filePath'' = Inr (JStr p)" and "p \<noteq> []"
    and "workspaceRoot ctx = Some root" and "root \<noteq> []" and "\<not> prefix root p"
  shows "\<exists>v3. check_boundary step ctx v = Inr v3 \<and> \<not> safe v3
           \<and> reason v3 = Some (''Operation outside workspace boundary: '' @ p)"
  using assms by (simp add: check_boundary_def js_or_def)

lemma validateStep_compose:
  assumes "check_dangerous step \<lparr>safe = True, reason = None, warnings = [], recommendations = []\<rparr> = Inr v1"
    and "check_sensitive step v1 = Inr v2" and "check_boundary step ctx v2 = Inr v3"
    and "\<exists>v5. check_large step (check_git step ctx v3) = Inr v5"
    and "\<And>w. \<exists>v6. check_recursive step w = Inr v6"
  shows "\<exists>v. validateStep step ctx = Inr v \<and> safe v = safe v3 \<and> reason v = reason v3"
proof -
  from assms(4) obtain v5 where l: "check_large step (check_git step ctx v3) = Inr v5" by blast
  from assms(5) obtain v6 where r: "check_recursive step v5 = Inr v6" by blast
  have "validateStep step ctx = Inr v6"
    using assms(1-3) l r by (simp add: validateStep_def)
  moreover have "safe v6 = safe v3 \<and> reason v6 = reason v3"
    using check_large_keeps [OF l] check_recursive_keeps [OF r] by simp
  ultimately show ?thesis by blast
qed




subsection \<open>Dangerous terminal commands\<close>

text \<open>
  Claim C7, as amended. For a \<^verbatim>\<open>terminal_command\<close> step whose command string contains an
  entry of the dangerous-operation list, \<^verbatim>\<open>validateStep\<close> never returns \<^verbatim>\<open>safe = true\<close>.
  When the boundary check stays silent (no workspace root, no \<^verbatim>\<open>filePath\<close> parameter, or a
  path inside the root) it returns \<^verbatim>\<open>safe = false\<close> and the reason names the command.
  When the step also carries a string \<^verbatim>\<open>filePath\<close> outside the workspace root, it returns
  \<^verbatim>\<open>safe = false\<close> and the reason is the boundary violation, which was written last.
\<close>

theorem validateStep_dangerous_command:
  assumes ty: "step_type step = JStr ''terminal_command''"
    and cmd: "getProp (step_parameters step) ''command'' = Inr (JStr cmd)"
    and t: "t \<in> set dangerousOperations" and sub: "sublist t cmd"
    and fp: "getProp (step_parameters step) ''filePath'' = Inr fp"
  shows "(\<forall>v. validateStep step ctx = Inr v \<longrightarrow> \<not> safe v)
    \<and> ((workspaceRoot ctx = None \<or> workspaceRoot ctx = Some [] \<or> \<not> truthy fp
          \<or> (\<exists>p root. fp = JStr p \<and> workspaceRoot ctx = Some root \<and> prefix root p))
        \<longrightarrow> (\<exists>v. validateStep step ctx = Inr v \<and> \<not> safe v
               \<and> reason v = Some (''Dangerous command detected: '' @ cmd)))
    \<and> (\<forall>p root. fp = JStr p \<and> p \<noteq> [] \<and> workspaceRoot ctx = Some root \<and> root \<noteq> []
            \<and> \<not> prefix root p
        \<longrightarrow> (\<exists>v. validateStep step ctx = Inr v \<and> \<not> safe v
               \<and> reason v = Some (''Operation outside workspace boundary: '' @ p)))"
proof -
  let ?v = "\<lparr>safe = True, reason = None, warnings = [], recommendations = []\<rparr>"
  obtain v1 where d: "check_dangerous step ?v = Inr v1"
      "\<not> safe v1" "reason v1 = Some (''Dangerous command detected: '' @ cmd)"
    using check_dangerous_hit [OF ty cmd t sub] by blast
  have s: "check_sensitive step v1 = Inr v1"
    using ty by simp
  have l: "\<exists>v5. check_large step w = Inr v5" for w
    using ty by simp
  have r: "\<exists>v6. check_recursive step w = Inr v6" for w
    using check_recursive_total [OF cmd] by blast
  have A: "\<forall>v. validateStep step ctx = Inr v \<longrightarrow> \<not> safe v"
    using validateStep_never_safe [OF d(1) d(2)] by blast
  have B: "\<exists>v. validateStep step ctx = Inr v \<and> \<not> safe v
               \<and> reason v = Some (''Dangerous command detected: '' @ cmd)"
    if q: "workspaceRoot ctx = None \<or> workspaceRoot ctx = Some [] \<or> \<not> truthy fp
          \<or> (\<exists>p root. fp = JStr p \<and> workspaceRoot ctx = Some root \<and> prefix root p)"
  proof -
    have b: "check_boundary step ctx v1 = Inr v1"
      using check_boundary_silent [OF fp q] .
    show ?thesis
      using validateStep_compose [OF d(1) s b l r] d(2,3) by auto
  qed
  have C: "\<exists>v. validateStep step ctx = Inr v \<and> \<not> safe v
               \<and> reason v = Some (''Operation outside workspace boundary: '' @ p)"
    if q: "fp = JStr p \<and> p \<noteq> [] \<and> workspaceRoot ctx = Some root \<and> root \<noteq> []
            \<and> \<not> prefix root p" for p root
  proof -
    from q have q': "fp = JStr p" "p \<noteq> []" "workspaceRoot ctx = Some root"
      "root \<noteq> []" "\<not> prefix root p" by simp_all
    obtain v3 where b: "check_boundary step ctx v1 = Inr v3" "\<not> safe v3"
      "reason v3 = Some (''Operation outside workspace boundary: '' @ p)"
      using check_boundary_fires [OF fp [unfolded q'(1)] q'(2-5)] by blast
    show ?thesis
      using validateStep_compose [OF d(1) s b(1) l r] b(2,3) by auto
  qed
  from A B C show ?thesis by blast
qed

text \<open>
  The theorem at \<^verbatim>\<open>rm -rf /tmp/x\<close> in the workspace \<^verbatim>\<open>/home/u/proj\<close>: alone, and with a
  \<^verbatim>\<open>filePath\<close> of \<^verbatim>\<open>/etc/passwd\<close>.
\<close>

theorem validateStep_dangerous_command_witness:
  "(\<exists>v. validateStep rm_step demo_context = Inr v \<and> \<not> safe v
        \<and> reason v = Some ''Dangerous command detected: rm -rf /tmp/x'')
   \<and> (\<exists>v. validateStep rm_step_with_path demo_context = Inr v \<and> \<not> safe v
        \<and> reason v = Some ''Operation outside workspace boundary: /etc/passwd'')"
proof -
  have t: "''rm -rf'' \<in> set dangerousOperations" by (simp add: dangerousOperations_def)
  have sub: "sublist ''rm -rf'' ''rm -rf /tmp/x''" by code_simp
  have ty1: "step_type rm_step = JStr ''terminal_command''" by (simp add: rm_step_def mkStep_def)
  have c1: "getProp (step_parameters rm_step) ''command'' = Inr (JStr ''rm -rf /tmp/x'')"
    by (simp add: rm_step_def mkStep_def)
  have f1: "getProp (step_parameters rm_step) ''filePath'' = Inr JUndefined"
    by (simp add: rm_step_def mkStep_def)
  have ty2: "step_type rm_step_with_path = JStr ''terminal_command''"
    by (simp add: rm_step_with_path_def mkStep_def)
  have c2: "getProp (step_parameters rm_step_with_path) ''command'' = Inr (JStr ''rm -rf /tmp/x'')"
    by (simp add: rm_step_with_path_def mkStep_def)
  have f2: "getProp (step_parameters rm_step_with_path) ''filePath'' = Inr (JStr ''/etc/passwd'')"
    by (simp add: rm_step_with_path_def mkStep_def)
  have out: "\<not> prefix ''/home/u/proj'' ''/etc/passwd''" by simp
  have root: "workspaceRoot demo_context = Some ''/home/u/proj''" by (simp add: demo_context_def)
  from validateStep_dangerous_command [OF ty1 c1 t sub f1, of demo_context]
  have a: "\<exists>v. validateStep rm_step demo_context = Inr v \<and> \<not> safe v
        \<and> reason v = Some ''Dangerous command detected: rm -rf /tmp/x''"
    by simp
  from validateStep_dangerous_command [OF ty2 c2 t sub f2, of demo_context] root out
  have b: "\<exists>v. validateStep rm_step_with_path demo_context = Inr v \<and> \<not> safe v
        \<and> reason v = Some ''Operation outside workspace boundary: /etc/passwd''"
    by simp
  from a b show ?thesis by blast
qed

text \<open>
  The claim as first stated fails at the second of these steps: the reason returned is
  the boundary violation and does not name the command.
\<close>

theorem dangerous_reason_counterexample:
  "validateStep rm_step_with_path demo_context =
     Inr \<lparr>safe = False,
          reason = Some ''Operation outside workspace boundary: /etc/passwd'',
          warnings = [''This command could cause data loss or system damage'',
                      ''This operation targets files outside the current workspace''],
          recommendations = [''Review the command carefully before execution'',
                             ''Ensure the file path is within the workspace'']\<rparr>
   \<and> \<not> sublist ''rm -rf'' ''Operation outside workspace boundary: /etc/passwd''"
  by code_simp

subsection \<open>Sensitive files\<close>



subsection \<open>The workspace boundary\<close>




subsection \<open>Steps without a file path, contexts without a workspace root\<close>




section \<open>Properties of the planner\<close>


lemma mkStep_status [simp]: "step_status (mkStep i n d t ps) = Pending"
  by (simp add: mkStep_def)

lemma default_steps_props:
  assumes "default_steps t params ctx = Inr steps"
  shows "length steps = (case t of Refactor \<Rightarrow> 3 | Implement \<Rightarrow> 5 | Fix \<Rightarrow> 3 | _ \<Rightarrow> 2)"
    and "\<forall>s \<in> set steps. step_status s = Pending"
  using assms
  by (cases t; auto simp: default_steps_def bind_e_def split: sum.splits)+

lemma default_steps_total:
  assumes "params \<noteq> JUndefined" and "params \<noteq> JNull"
  shows "\<exists>steps. default_steps t params ctx = Inr steps"
proof -
  have "\<exists>v. getProp params k = Inr v" for k
    using assms by (cases params) auto
  then obtain g where g: "\<And>k. getProp params k = Inr (g k)"
    by metis
  show ?thesis
    by (cases t) (simp_all add: default_steps_def g)
qed

lemma createDefaultPlan_props:
  assumes "createDefaultPlan t params ctx = Inr plan"
  shows "plan_estimatedDuration plan = JNum (60 * int (length (plan_steps plan)))"
    and "length (plan_steps plan) = (case t of Refactor \<Rightarrow> 3 | Implement \<Rightarrow> 5 | Fix \<Rightarrow> 3 | _ \<Rightarrow> 2)"
    and "\<forall>s \<in> set (plan_steps plan). step_status s = Pending"
proof -
  from assms obtain steps where s: "default_steps t params ctx = Inr steps"
    and p: "plan = \<lparr>plan_steps = steps, plan_estimatedDuration = JNum (int (length steps) * 60)\<rparr>"
    by (cases "default_steps t params ctx") (auto simp: createDefaultPlan_def)
  show "plan_estimatedDuration plan = JNum (60 * int (length (plan_steps plan)))"
    using p by simp
  show "length (plan_steps plan) = (case t of Refactor \<Rightarrow> 3 | Implement \<Rightarrow> 5 | Fix \<Rightarrow> 3 | _ \<Rightarrow> 2)"
    using default_steps_props(1) [OF s] p by simp
  show "\<forall>s \<in> set (plan_steps plan). step_status s = Pending"
    using default_steps_props(2) [OF s] p by simp
qed

lemma parsed_step_pending: "parsed_step x n = Inr s \<Longrightarrow> step_status s = Pending"
  by (auto simp: parsed_step_def bind_e_def split: sum.splits)

lemma map_steps_pending:
  "map_steps xs n = Inr ss \<Longrightarrow> \<forall>s \<in> set ss. step_status s = Pending"
proof (induction xs arbitrary: n ss)
  case Nil
  then show ?case by simp
next
  case (Cons x xs)
  then show ?case
    by (auto simp: bind_e_def split: sum.splits dest: parsed_step_pending)
qed

lemma parsePlanResponse_pending:
  assumes "parsePlanResponse parse response = Inr plan"
  shows "\<forall>s \<in> set (plan_steps plan). step_status s = Pending"
proof -
  from assms have "parsePlanResponse_try parse response = Inr plan"
    by (auto simp: parsePlanResponse_def split: sum.splits)
  then obtain xs where "map_steps xs 0 = Inr (plan_steps plan)"
    by (auto simp: parsePlanResponse_try_def bind_e_def
        split: option.splits sum.splits jsval.splits)
  then show ?thesis by (rule map_steps_pending)
qed

lemma createPlan_pending:
  assumes "createPlan parse t params ctx llm = Inr plan"
  shows "\<forall>s \<in> set (plan_steps plan). step_status s = Pending"
  using assms createDefaultPlan_props(3) parsePlanResponse_pending
  by (auto simp: createPlan_def split: sum.splits)

lemma parsePlanResponse_no_json:
  assumes "json_match response = None
    \<or> (\<exists>js. json_match response = Some js \<and> parse js = None)
    \<or> (\<exists>js parsed st. json_match response = Some js \<and> parse js = Some parsed
          \<and> getProp parsed ''steps'' = Inr st \<and> (\<forall>xs. st \<noteq> JArr xs))"
  shows "parsePlanResponse parse response = Inl (Err ''Invalid plan response format'')"
proof -
  have "\<exists>e. parsePlanResponse_try parse response = Inl e"
    using assms
    by (auto simp: parsePlanResponse_try_def split: jsval.splits)
  then show ?thesis
    by (auto simp: parsePlanResponse_def)
qed

subsection \<open>The fallback to the default plan\<close>

text \<open>
  Claim C3, as amended. For every task type: when the LLM call fails, when the answer
  holds no text in braces, when \<^verbatim>\<open>JSON.parse\<close> rejects that text, or when the parsed
  \<^verbatim>\<open>steps\<close> is not an array, \<^verbatim>\<open>createPlan\<close> returns what \<^verbatim>\<open>createDefaultPlan\<close> returns
  for that task type: the fixed steps (3 for refactor and fix, 5 for implement, 2 for the
  others) with \<^verbatim>\<open>estimatedDuration\<close> 60 times their number, for every \<^verbatim>\<open>params\<close> other
  than \<^verbatim>\<open>null\<close> and \<^verbatim>\<open>undefined\<close>. When the parsed \<^verbatim>\<open>steps\<close> is the empty array,
  \<^verbatim>\<open>createPlan\<close> returns the parsed plan: no steps, and the parsed
  \<^verbatim>\<open>estimatedDuration\<close> or 300.
\<close>

theorem createPlan_default_plan:
  "(((\<exists>e. llm = Inl e)
      \<or> (\<exists>response. llm = Inr response
            \<and> (json_match response = None
                \<or> (\<exists>js. json_match response = Some js \<and> parse js = None)
                \<or> (\<exists>js parsed st. json_match response = Some js \<and> parse js = Some parsed
                      \<and> getProp parsed ''steps'' = Inr st \<and> (\<forall>xs. st \<noteq> JArr xs)))))
     \<longrightarrow> createPlan parse t params ctx llm = createDefaultPlan t params ctx)
   \<and> (\<forall>plan. createDefaultPlan t params ctx = Inr plan
        \<longrightarrow> plan_estimatedDuration plan = JNum (60 * int (length (plan_steps plan)))
          \<and> length (plan_steps plan)
              = (case t of Refactor \<Rightarrow> 3 | Implement \<Rightarrow> 5 | Fix \<Rightarrow> 3 | _ \<Rightarrow> 2))
   \<and> (params \<noteq> JUndefined \<and> params \<noteq> JNull
        \<longrightarrow> (\<exists>plan. createDefaultPlan t params ctx = Inr plan))
   \<and> (\<forall>response js parsed d. llm = Inr response \<and> json_match response = Some js
          \<and> parse js = Some parsed \<and> getProp parsed ''steps'' = Inr (JArr [])
          \<and> getProp parsed ''estimatedDuration'' = Inr d
        \<longrightarrow> createPlan parse t params ctx llm
              = Inr \<lparr>plan_steps = [], plan_estimatedDuration = js_or d (JNum 300)\<rparr>)"
proof (intro conjI allI impI)
  assume "(\<exists>e. llm = Inl e)
      \<or> (\<exists>response. llm = Inr response
            \<and> (json_match response = None
                \<or> (\<exists>js. json_match response = Some js \<and> parse js = None)
                \<or> (\<exists>js parsed st. json_match response = Some js \<and> parse js = Some parsed
                      \<and> getProp parsed ''steps'' = Inr st \<and> (\<forall>xs. st \<noteq> JArr xs))))"
  then show "createPlan parse t params ctx llm = createDefaultPlan t params ctx"
  proof
    assume "\<exists>e. llm = Inl e"
    then show ?thesis by (auto simp: createPlan_def)
  next
    assume "\<exists>response. llm = Inr response
            \<and> (json_match response = None
                \<or> (\<exists>js. json_match response = Some js \<and> parse js = None)
                \<or> (\<exists>js parsed st. json_match response = Some js \<and> parse js = Some parsed
                      \<and> getProp parsed ''steps'' = Inr st \<and> (\<forall>xs. st \<noteq> JArr xs)))"
    then obtain response where r: "llm = Inr response"
      "json_match response = None
        \<or> (\<exists>js. json_match response = Some js \<and> parse js = None)
        \<or> (\<exists>js parsed st. json_match response = Some js \<and> parse js = Some parsed
              \<and> getProp parsed ''steps'' = Inr st \<and> (\<forall>xs. st \<noteq> JArr xs))"
      by blast
    show ?thesis
      using r(1) parsePlanResponse_no_json [OF r(2)] by (simp add: createPlan_def)
  qed
next
  fix plan
  assume p: "createDefaultPlan t params ctx = Inr plan"
  show "plan_estimatedDuration plan = JNum (60 * int (length (plan_steps plan)))"
    using createDefaultPlan_props(1) [OF p] .
  show "length (plan_steps plan) = (case t of Refactor \<Rightarrow> 3 | Implement \<Rightarrow> 5 | Fix \<Rightarrow> 3 | _ \<Rightarrow> 2)"
    using createDefaultPlan_props(2) [OF p] .
next
  assume "params \<noteq> JUndefined \<and> params \<noteq> JNull"
  then obtain steps where "default_steps t params ctx = Inr steps"
    using default_steps_total by blast
  then show "\<exists>plan. createDefaultPlan t params ctx = Inr plan"
    by (simp add: createDefaultPlan_def)
next
  fix response js parsed d
  assume "llm = Inr response \<and> json_match response = Some js
          \<and> parse js = Some parsed \<and> getProp parsed ''steps'' = Inr (JArr [])
          \<and> getProp parsed ''estimatedDuration'' = Inr d"
  then show "createPlan parse t params ctx llm
              = Inr \<lparr>plan_steps = [], plan_estimatedDuration = js_or d (JNum 300)\<rparr>"
    by (simp add: createPlan_def parsePlanResponse_def parsePlanResponse_try_def)
qed

text \<open>
  The theorem at a refactor task whose answer is prose without braces, and at the answer
  \<^verbatim>\<open>{"steps": []}\<close>.
\<close>

theorem createPlan_default_plan_witness:
  "createPlan parse_nothing Refactor implement_params demo_context
       (Inr ''I cannot help with that.'')
     = createDefaultPlan Refactor implement_params demo_context
   \<and> (\<exists>plan. createDefaultPlan Refactor implement_params demo_context = Inr plan
         \<and> plan_estimatedDuration plan = JNum 180 \<and> length (plan_steps plan) = 3)
   \<and> createPlan (parse_known empty_plan_text empty_plan_json)
        Refactor implement_params demo_context (Inr empty_plan_text)
     = Inr \<lparr>plan_steps = [], plan_estimatedDuration = JNum 300\<rparr>"
proof -
  note T = createPlan_default_plan [where llm = "Inr ''I cannot help with that.''"
      and parse = parse_nothing and t = Refactor and params = implement_params
      and ctx = demo_context]
  note U = createPlan_default_plan [where llm = "Inr empty_plan_text"
      and parse = "parse_known empty_plan_text empty_plan_json" and t = Refactor
      and params = implement_params and ctx = demo_context]
  have m: "json_match ''I cannot help with that.'' = None" by code_simp
  have 1: "createPlan parse_nothing Refactor implement_params demo_context
       (Inr ''I cannot help with that.'')
     = createDefaultPlan Refactor implement_params demo_context"
    using T [THEN conjunct1] m by simp
  have n: "implement_params \<noteq> JUndefined \<and> implement_params \<noteq> JNull"
    by (simp add: implement_params_def)
  obtain plan where p: "createDefaultPlan Refactor implement_params demo_context = Inr plan"
    using T [THEN conjunct2, THEN conjunct2, THEN conjunct1] n by blast
  have "plan_estimatedDuration plan = JNum (60 * int (length (plan_steps plan)))
          \<and> length (plan_steps plan) = 3"
    using T [THEN conjunct2, THEN conjunct1, rule_format, OF p] by simp
  then have 2: "\<exists>plan. createDefaultPlan Refactor implement_params demo_context = Inr plan
         \<and> plan_estimatedDuration plan = JNum 180 \<and> length (plan_steps plan) = 3"
    using p by simp
  have e: "Inr empty_plan_text = (Inr empty_plan_text :: exn + string)
      \<and> json_match empty_plan_text = Some empty_plan_text
      \<and> parse_known empty_plan_text empty_plan_json empty_plan_text = Some empty_plan_json
      \<and> getProp empty_plan_json ''steps'' = Inr (JArr [])
      \<and> getProp empty_plan_json ''estimatedDuration'' = Inr JUndefined"
    by code_simp
  have 3: "createPlan (parse_known empty_plan_text empty_plan_json)
        Refactor implement_params demo_context (Inr empty_plan_text)
     = Inr \<lparr>plan_steps = [], plan_estimatedDuration = JNum 300\<rparr>"
    using U [THEN conjunct2, THEN conjunct2, THEN conjunct2, rule_format, OF e]
    by (simp add: js_or_def)
  from 1 2 3 show ?thesis by (intro conjI)
qed

text \<open>
  The claim as first stated fails at the answer \<^verbatim>\<open>{"steps": []}\<close>: the plan returned
  has no steps and the duration 300, and is not the default plan.
\<close>

theorem empty_plan_counterexample:
  "createPlan (parse_known empty_plan_text empty_plan_json)
        Refactor implement_params demo_context (Inr empty_plan_text)
     = Inr \<lparr>plan_steps = [], plan_estimatedDuration = JNum 300\<rparr>
   \<and> createPlan (parse_known empty_plan_text empty_plan_json)
        Refactor implement_params demo_context (Inr empty_plan_text)
     \<noteq> createDefaultPlan Refactor implement_params demo_context"
  by code_simp

section \<open>Properties of the manager\<close>

lemma same_outside_refl [simp]: "same_outside taskId m m"
  by (simp add: same_outside_def)

lemma same_outside_trans:
  "same_outside taskId m m' \<Longrightarrow> same_outside taskId m' m'' \<Longrightarrow> same_outside taskId m m''"
  by (simp add: same_outside_def)

lemma updTask_fields [simp]:
  "activeTasks (updTask r f m) = activeTasks m"
  "taskHistory (updTask r f m) = taskHistory m"
  "nextRef (updTask r f m) = nextRef m"
  by (simp_all add: updTask_def)

lemma updStep_fields [simp]:
  "activeTasks (updStep r i f m) = activeTasks m"
  "taskHistory (updStep r i f m) = taskHistory m"
  by (simp_all add: updStep_def)

lemma cancelTask_same_outside: "same_outside taskId m (snd (cancelTask taskId m))"
  by (simp add: cancelTask_def same_outside_def split: option.splits)

lemma cancelTask_inactive: "activeTasks (snd (cancelTask taskId m)) taskId = None"
  by (simp add: cancelTask_def split: option.splits)

lemma await_same_outside: "same_outside taskId (rs_mgr st) (rs_mgr (await env taskId st))"
  by (simp add: await_def cancelTask_same_outside split: prod.splits)

lemma await_writes [simp]: "rs_writes (await env taskId st) = rs_writes st"
  by (simp add: await_def split: prod.splits)

lemma setStepStatus_mgr [simp]:
  "activeTasks (rs_mgr (setStepStatus r i s st)) = activeTasks (rs_mgr st)"
  "taskHistory (rs_mgr (setStepStatus r i s st)) = taskHistory (rs_mgr st)"
  by (simp_all add: setStepStatus_def)

lemma setStepStatus_writes [simp]:
  "rs_writes (setStepStatus r i s st) = rs_writes st @ [(i, s)]"
  by (simp add: setStepStatus_def)

lemma failStep_mgr [simp]:
  "activeTasks (rs_mgr (failStep r i e st)) = activeTasks (rs_mgr st)"
  "taskHistory (rs_mgr (failStep r i e st)) = taskHistory (rs_mgr st)"
  by (simp_all add: failStep_def Let_def)

lemma failStep_writes [simp]:
  "rs_writes (failStep r i e st) = rs_writes st @ [(i, Failed)]"
  by (simp add: failStep_def Let_def)

lemma completeStep_mgr [simp]:
  "activeTasks (rs_mgr (completeStep r i res st)) = activeTasks (rs_mgr st)"
  "taskHistory (rs_mgr (completeStep r i res st)) = taskHistory (rs_mgr st)"
  by (simp_all add: completeStep_def Let_def)

lemma completeStep_writes [simp]:
  "rs_writes (completeStep r i res st) = rs_writes st @ [(i, Completed)]"
  by (simp add: completeStep_def Let_def)

lemma same_outside_eq:
  "activeTasks m' = activeTasks m \<Longrightarrow> taskHistory m' = taskHistory m \<Longrightarrow> same_outside taskId m m'"
  by (simp add: same_outside_def)

lemma await_after_same_outside:
  "activeTasks (rs_mgr st') = activeTasks (rs_mgr st) \<Longrightarrow>
   taskHistory (rs_mgr st') = taskHistory (rs_mgr st) \<Longrightarrow>
   same_outside taskId (rs_mgr st) (rs_mgr (await env taskId st'))"
  using await_same_outside [of taskId st' env] by (simp add: same_outside_def)

lemma same_outside_fail:
  "same_outside taskId m (rs_mgr st) \<Longrightarrow> same_outside taskId m (rs_mgr (failStep r i e st))"
  by (simp add: same_outside_def)

lemma same_outside_complete:
  "same_outside taskId m (rs_mgr st) \<Longrightarrow> same_outside taskId m (rs_mgr (completeStep r i res st))"
  by (simp add: same_outside_def)

lemma same_outside_await:
  "same_outside taskId m (rs_mgr st) \<Longrightarrow> same_outside taskId m (rs_mgr (await env taskId st))"
  using await_same_outside same_outside_trans by blast

lemma same_outside_world:
  "same_outside taskId m (rs_mgr st) \<Longrightarrow> same_outside taskId m (rs_mgr (st\<lparr>rs_world := w\<rparr>))"
  by simp

lemma same_outside_set:
  "same_outside taskId m (rs_mgr st) \<Longrightarrow> same_outside taskId m (rs_mgr (setStepStatus r i s st))"
  by (simp add: same_outside_def)

lemmas same_outside_intros =
  same_outside_fail same_outside_complete same_outside_await same_outside_world same_outside_set
  same_outside_refl

lemma stepBody_same_outside:
  "same_outside taskId (rs_mgr st) (rs_mgr (snd (stepBody env taskId r ctx i st)))"
  by (auto simp: stepBody_def catchStep_def Let_def split: option.splits sum.splits
      intro!: same_outside_intros)

lemma customBody_same_outside:
  "same_outside taskId (rs_mgr st) (rs_mgr (snd (customBody env taskId r ctx i st)))"
  by (auto simp: customBody_def Let_def split: option.splits sum.splits intro!: same_outside_intros)

lemma for_steps_same_outside:
  assumes "\<And>i st. same_outside taskId (rs_mgr st) (rs_mgr (snd (body i st)))"
  shows "same_outside taskId (rs_mgr st) (rs_mgr (snd (for_steps body k i st)))"
proof (induction k arbitrary: i st)
  case 0
  then show ?case by simp
next
  case (Suc k)
  obtain x st' where b: "body i st = (x, st')" by (cases "body i st")
  have 1: "same_outside taskId (rs_mgr st) (rs_mgr st')"
    using assms [of st i] b by simp
  show ?case
  proof (cases x)
    case None
    then show ?thesis
      using b 1 Suc.IH [of st' "Suc i"] same_outside_trans by auto
  next
    case (Some e)
    then show ?thesis using b 1 by simp
  qed
qed

lemma stepBody_writes:
  "\<exists>L. rs_writes (snd (stepBody env taskId r ctx i st)) = rs_writes st @ L \<and> step_shape i L"
  by (auto simp: stepBody_def catchStep_def Let_def step_shape_def split: option.splits sum.splits)

lemma customBody_writes:
  "\<exists>L. rs_writes (snd (customBody env taskId r ctx i st)) = rs_writes st @ L \<and> step_shape i L"
  by (auto simp: customBody_def Let_def step_shape_def split: option.splits sum.splits)

lemma writes_of_append [simp]: "writes_of j (xs @ ys) = writes_of j xs @ writes_of j ys"
  by (simp add: writes_of_def)

lemma writes_of_Nil [simp]: "writes_of j [] = []"
  by (simp add: writes_of_def)

lemma writes_of_later: "\<forall>e \<in> set L. i < fst e \<Longrightarrow> writes_of i L = []"
  by (auto simp: writes_of_def filter_empty_conv)

lemma step_shape_forward: "step_shape i L \<Longrightarrow> forward (Pending # writes_of j L)"
  by (auto simp: step_shape_def writes_of_def)

lemma step_shape_other: "step_shape i L \<Longrightarrow> j \<noteq> i \<Longrightarrow> writes_of j L = []"
  by (auto simp: step_shape_def writes_of_def)

lemma step_shape_index: "step_shape i L \<Longrightarrow> e \<in> set L \<Longrightarrow> fst e = i"
  by (auto simp: step_shape_def)

lemma for_steps_writes:
  assumes body: "\<And>i st. \<exists>L. rs_writes (snd (body i st)) = rs_writes st @ L \<and> step_shape i L"
  shows "\<exists>L. rs_writes (snd (for_steps body k i st)) = rs_writes st @ L
           \<and> (\<forall>j. forward (Pending # writes_of j L)) \<and> (\<forall>e \<in> set L. i \<le> fst e)"
proof (induction k arbitrary: i st)
  case 0
  then show ?case by simp
next
  case (Suc k)
  obtain x st' where b: "body i st = (x, st')" by (cases "body i st")
  obtain L1 where L1: "rs_writes st' = rs_writes st @ L1" "step_shape i L1"
    using body [of i st] b by auto
  show ?case
  proof (cases x)
    case (Some e)
    then have "rs_writes (snd (for_steps body (Suc k) i st)) = rs_writes st @ L1"
      using b L1 by simp
    moreover have "\<forall>j. forward (Pending # writes_of j L1)"
      using step_shape_forward [OF L1(2)] by blast
    moreover have "\<forall>e \<in> set L1. i \<le> fst e"
      using step_shape_index [OF L1(2)] by auto
    ultimately show ?thesis by blast
  next
    case None
    obtain L2 where L2: "rs_writes (snd (for_steps body k (Suc i) st')) = rs_writes st' @ L2"
      "\<forall>j. forward (Pending # writes_of j L2)" "\<forall>e \<in> set L2. Suc i \<le> fst e"
      using Suc.IH [of "Suc i" st'] by blast
    have w: "rs_writes (snd (for_steps body (Suc k) i st)) = rs_writes st @ (L1 @ L2)"
      using b None L1 L2 by simp
    have f: "forward (Pending # writes_of j (L1 @ L2))" for j
    proof (cases "j = i")
      case True
      have "writes_of i L2 = []"
        using L2(3) by (intro writes_of_later) auto
      then show ?thesis
        using True step_shape_forward [OF L1(2), of i] by simp
    next
      case False
      then show ?thesis
        using step_shape_other [OF L1(2) False] L2(2) by simp
    qed
    have "\<forall>e \<in> set (L1 @ L2). i \<le> fst e"
      using step_shape_index [OF L1(2)] L2(3) by auto
    with w f show ?thesis by blast
  qed
qed

lemma register_same_outside: "same_outside taskId m (register taskId task m)"
  by (simp add: same_outside_def register_def)

lemma same_outside_updTask:
  "same_outside taskId m m' \<Longrightarrow> same_outside taskId m (updTask r f m')"
  by (simp add: same_outside_def)

lemma finish_effect:
  assumes "same_outside taskId m m'"
  shows "taskHistory (finish taskId res m') = pushToHistory res (taskHistory m)"
    and "activeTasks (finish taskId res m') = (activeTasks m)(taskId := None)"
  using assms by (auto simp: finish_def same_outside_def)

lemma taskFailed_ended:
  assumes "same_outside taskId m (rs_mgr st)"
  shows "ended taskId m (taskFailed t params taskId r e st)"
proof -
  let ?m1 = "updTask r (\<lambda>x. x\<lparr>task_status := TaskFailed, task_error := Some e\<rparr>) (rs_mgr st)"
  let ?res = "\<lparr>res_taskId = taskId, res_type = t, res_success = False, res_results = None,
                 res_steps = task_steps (heap ?m1 r), res_error = task_error (heap ?m1 r),
                 res_context = task_context (heap ?m1 r), res_params = params\<rparr>"
  have "res_error ?res = Some e" by (simp add: updTask_def)
  then show ?thesis
    unfolding ended_def taskFailed_def Let_def
    using finish_effect [OF same_outside_updTask [OF assms], where res = ?res]
    by (intro exI [of _ ?res]) simp
qed

lemma taskSucceeded_ended:
  assumes "same_outside taskId m (rs_mgr st)"
  shows "ended taskId m (taskSucceeded t params taskId r ctx st)"
proof -
  let ?m1 = "updTask r (\<lambda>x. x\<lparr>task_status := TaskCompleted\<rparr>) (rs_mgr st)"
  let ?res = "\<lparr>res_taskId = taskId, res_type = t, res_success = True,
                 res_results = Some (rs_results st), res_steps = task_steps (heap ?m1 r),
                 res_error = None, res_context = Some ctx, res_params = params\<rparr>"
  show ?thesis
    unfolding ended_def taskSucceeded_def Let_def
    using finish_effect [OF same_outside_updTask [OF assms], where res = ?res]
    by (intro exI [of _ ?res]) simp
qed

lemma taskFailed_writes [simp]: "rs_writes (snd (taskFailed t params taskId r e st)) = rs_writes st"
  by (simp add: taskFailed_def Let_def)

lemma taskSucceeded_writes [simp]:
  "rs_writes (snd (taskSucceeded t params taskId r ctx st)) = rs_writes st"
  by (simp add: taskSucceeded_def Let_def)

lemma stepLoop_same_outside:
  "same_outside taskId (rs_mgr st) (rs_mgr (snd (stepLoop env taskId r ctx k i st)))"
  unfolding stepLoop_def by (rule for_steps_same_outside) (rule stepBody_same_outside)

lemma customLoop_same_outside:
  "same_outside taskId (rs_mgr st) (rs_mgr (snd (customLoop env taskId r ctx k i st)))"
  unfolding customLoop_def by (rule for_steps_same_outside) (rule customBody_same_outside)

lemma await_fields [simp]:
  "rs_results (await env taskId st) = rs_results st"
  by (simp add: await_def split: prod.splits)

lemma length_map_at [simp]: "length (map_at i f xs) = length xs"
  by (induction i f xs rule: map_at.induct) auto

lemma nth_map_at:
  "j < length xs \<Longrightarrow> map_at i f xs ! j = (if j = i then f (xs ! j) else xs ! j)"
proof (induction i f xs arbitrary: j rule: map_at.induct)
  case (1 i f)
  then show ?case by simp
next
  case (2 f x xs)
  then show ?case by (cases j) auto
next
  case (3 i f x xs)
  then show ?case by (cases j) auto
qed

lemma nth_opt_Some_iff: "nth_opt xs i = Some x \<longleftrightarrow> i < length xs \<and> xs ! i = x"
proof (induction xs i rule: nth_opt.induct)
  case (1 i)
  then show ?case by simp
next
  case (2 x xs)
  then show ?case by auto
next
  case (3 x xs i)
  then show ?case by auto
qed

lemma cancelTask_steps [simp]:
  "task_steps (heap (snd (cancelTask taskId m)) r) = task_steps (heap m r)"
  by (simp add: cancelTask_def updTask_def split: option.splits)

lemma await_steps [simp]:
  "task_steps (heap (rs_mgr (await env taskId st)) r) = task_steps (heap (rs_mgr st) r)"
  by (simp add: await_def split: prod.splits)

lemma tracked_await: "tracked steps0 r st \<Longrightarrow> tracked steps0 r (await env taskId st)"
  by (simp add: tracked_def)

lemma tracked_world: "tracked steps0 r st \<Longrightarrow> tracked steps0 r (st\<lparr>rs_world := w\<rparr>)"
  by (simp add: tracked_def)

lemma writes_of_single [simp]: "writes_of j [(i, s)] = (if j = i then [s] else [])"
  by (simp add: writes_of_def)

lemma tracked_setStepStatus:
  assumes "tracked steps0 r st"
  shows "tracked steps0 r (setStepStatus r i s st)"
  using assms
  by (auto simp: tracked_def setStepStatus_def updStep_def updTask_def nth_map_at)

lemma tracked_failStep:
  assumes "tracked steps0 r st"
  shows "tracked steps0 r (failStep r i e st)"
proof -
  have "tracked steps0 r (setStepStatus r i Failed st)"
    using assms by (rule tracked_setStepStatus)
  then show ?thesis
    by (auto simp: tracked_def failStep_def Let_def updStep_def updTask_def nth_map_at)
qed

lemma tracked_completeStep:
  assumes "tracked steps0 r st"
  shows "tracked steps0 r (completeStep r i res st)"
proof -
  have "tracked steps0 r (setStepStatus r i Completed st)"
    using assms by (rule tracked_setStepStatus)
  then show ?thesis
    by (auto simp: tracked_def completeStep_def Let_def updStep_def updTask_def nth_map_at)
qed

lemmas tracked_intros =
  tracked_await tracked_world tracked_setStepStatus tracked_failStep tracked_completeStep

lemma stepBody_tracked:
  "tracked steps0 r st \<Longrightarrow> tracked steps0 r (snd (stepBody env taskId r ctx i st))"
  by (auto simp: stepBody_def catchStep_def Let_def split: option.splits sum.splits
      intro!: tracked_intros)

lemma customBody_tracked:
  "tracked steps0 r st \<Longrightarrow> tracked steps0 r (snd (customBody env taskId r ctx i st))"
  by (auto simp: customBody_def Let_def split: option.splits sum.splits intro!: tracked_intros)

lemma for_steps_tracked:
  assumes "\<And>i st. tracked steps0 r st \<Longrightarrow> tracked steps0 r (snd (body i st))"
  shows "tracked steps0 r st \<Longrightarrow> tracked steps0 r (snd (for_steps body k i st))"
proof (induction k arbitrary: i st)
  case 0
  then show ?case by simp
next
  case (Suc k)
  obtain x st' where b: "body i st = (x, st')" by (cases "body i st")
  have 1: "tracked steps0 r st'"
    using assms [OF Suc.prems, of i] b by simp
  show ?case
  proof (cases x)
    case None
    then show ?thesis
      using b Suc.IH [OF 1, of "Suc i"] by simp
  next
    case (Some e)
    then show ?thesis using b 1 by simp
  qed
qed

lemma taskFailed_steps [simp]:
  "task_steps (heap (rs_mgr (snd (taskFailed t params taskId r e st))) r')
     = task_steps (heap (rs_mgr st) r')"
  by (simp add: taskFailed_def Let_def finish_def updTask_def)

lemma taskSucceeded_steps [simp]:
  "task_steps (heap (rs_mgr (snd (taskSucceeded t params taskId r ctx st))) r')
     = task_steps (heap (rs_mgr st) r')"
  by (simp add: taskSucceeded_def Let_def finish_def updTask_def)

lemma tracked_taskFailed:
  "tracked steps0 r st \<Longrightarrow> tracked steps0 r (snd (taskFailed t params taskId r' e st))"
  by (simp add: tracked_def)

lemma tracked_taskSucceeded:
  "tracked steps0 r st \<Longrightarrow> tracked steps0 r (snd (taskSucceeded t params taskId r' ctx st))"
  by (simp add: tracked_def)


lemma register_heap [simp]: "heap (register taskId task m) (nextRef m) = task"
  by (simp add: register_def)

lemma updTask_heap [simp]: "heap (updTask r f m) r = f (heap m r)"
  by (simp add: updTask_def)

lemma executeTask_shape:
  "(\<exists>e st. rs_writes st = [] \<and> same_outside taskId m (rs_mgr st)
        \<and> task_steps (heap (rs_mgr st) (nextRef m)) = []
        \<and> executeTask env t params taskId m w = taskFailed t params taskId (nextRef m) e st)
   \<or> (\<exists>ctx (plan :: Plan) st x st'. rs_writes st = [] \<and> same_outside taskId m (rs_mgr st)
        \<and> (\<forall>s \<in> set (plan_steps plan). step_status s = Pending)
        \<and> task_steps (heap (rs_mgr st) (nextRef m)) = plan_steps plan
        \<and> stepLoop env taskId (nextRef m) ctx (length (plan_steps plan)) 0 st = (x, st')
        \<and> executeTask env t params taskId m w =
            (case x of Some e \<Rightarrow> taskFailed t params taskId (nextRef m) e st'
                     | None \<Rightarrow> taskSucceeded t params taskId (nextRef m) ctx st'))"
proof -
  define task where "task = \<lparr>task_id = taskId, task_type = t, task_params = params,
      task_status = Planning, task_error = None, task_steps = [], task_context = None,
      task_estimatedDuration = None, task_currentStep = None\<rparr>"
  define st1 where "st1 = await env taskId
      \<lparr>rs_mgr = updTask (nextRef m) (\<lambda>x. x\<lparr>task_status := Analyzing\<rparr>) (register taskId task m),
       rs_world = snd (analyze env w params), rs_results = [], rs_writes = []\<rparr>"
  have s1: "same_outside taskId m (rs_mgr st1)"
    unfolding st1_def
    by (rule same_outside_await) (simp add: same_outside_updTask register_same_outside)
  have w1: "rs_writes st1 = []"
    unfolding st1_def by simp
  have t1: "task_steps (heap (rs_mgr st1) (nextRef m)) = []"
    unfolding st1_def by (simp add: task_def)
  show ?thesis
  proof (cases "fst (analyze env w params)")
    case (Inl e)
    then have "executeTask env t params taskId m w = taskFailed t params taskId (nextRef m) e st1"
      by (simp add: executeTask_def Let_def task_def st1_def)
    with s1 w1 t1 show ?thesis by blast
  next
    case (Inr ctx)
    define st3 where "st3 = await env taskId
       (st1\<lparr>rs_mgr := updTask (nextRef m) (\<lambda>x. x\<lparr>task_context := Some ctx, task_status := Planning\<rparr>) (rs_mgr st1),
            rs_world := snd (generate env (rs_world st1))\<rparr>)"
    have s3: "same_outside taskId m (rs_mgr st3)"
      unfolding st3_def
      by (rule same_outside_await) (simp add: same_outside_updTask s1)
    have w3: "rs_writes st3 = []"
      unfolding st3_def using w1 by simp
    have t3: "task_steps (heap (rs_mgr st3) (nextRef m)) = []"
      unfolding st3_def using t1 by simp
    show ?thesis
    proof (cases "createPlan (JSON_parse env) t params ctx (fst (generate env (rs_world st1)))")
      case (Inl e)
      then have "executeTask env t params taskId m w = taskFailed t params taskId (nextRef m) e st3"
        using Inr by (simp add: executeTask_def Let_def task_def st1_def st3_def)
      with s3 w3 t3 show ?thesis by blast
    next
      case plan: (Inr plan)
      define st4 where "st4 = st3\<lparr>rs_mgr := updTask (nextRef m)
          (\<lambda>x. x\<lparr>task_steps := plan_steps plan,
                  task_estimatedDuration := Some (plan_estimatedDuration plan),
                  task_status := Executing\<rparr>) (rs_mgr st3)\<rparr>"
      have s4: "same_outside taskId m (rs_mgr st4)"
        unfolding st4_def by (simp add: same_outside_updTask s3)
      have w4: "rs_writes st4 = []"
        unfolding st4_def using w3 by simp
      have t4: "task_steps (heap (rs_mgr st4) (nextRef m)) = plan_steps plan"
        unfolding st4_def by simp
      have p4: "\<forall>s \<in> set (plan_steps plan). step_status s = Pending"
        using plan by (rule createPlan_pending)
      obtain x st5 where l: "stepLoop env taskId (nextRef m) ctx (length (plan_steps plan)) 0 st4 = (x, st5)"
        by (cases "stepLoop env taskId (nextRef m) ctx (length (plan_steps plan)) 0 st4")
      have eq: "executeTask env t params taskId m w =
            (case x of Some e \<Rightarrow> taskFailed t params taskId (nextRef m) e st5
                     | None \<Rightarrow> taskSucceeded t params taskId (nextRef m) ctx st5)"
        using Inr plan l
        by (cases x) (simp_all add: executeTask_def Let_def task_def st1_def st3_def st4_def)
      show ?thesis
        by (intro disjI2 exI conjI) (rule w4, rule s4, rule p4, rule t4, rule l, rule eq)
    qed
  qed
qed

lemma runCustomPlan_shape:
  "(\<exists>e st. rs_writes st = [] \<and> same_outside taskId m (rs_mgr st)
        \<and> task_steps (heap (rs_mgr st) (nextRef m)) = customSteps
        \<and> runCustomPlan env t params customSteps taskId m w
            = taskFailed t params taskId (nextRef m) e st)
   \<or> (\<exists>ctx st x st'. rs_writes st = [] \<and> same_outside taskId m (rs_mgr st)
        \<and> task_steps (heap (rs_mgr st) (nextRef m)) = customSteps
        \<and> customLoop env taskId (nextRef m) ctx (length customSteps) 0 st = (x, st')
        \<and> runCustomPlan env t params customSteps taskId m w =
            (case x of Some e \<Rightarrow> taskFailed t params taskId (nextRef m) e st'
                     | None \<Rightarrow> taskSucceeded t params taskId (nextRef m) ctx st'))"
proof -
  define task where "task = \<lparr>task_id = taskId, task_type = t, task_params = params,
      task_status = Executing, task_error = None, task_steps = customSteps, task_context = None,
      task_estimatedDuration = None, task_currentStep = None\<rparr>"
  define st1 where "st1 = await env taskId
      \<lparr>rs_mgr = register taskId task m,
       rs_world = snd (analyze env w params), rs_results = [], rs_writes = []\<rparr>"
  have s1: "same_outside taskId m (rs_mgr st1)"
    unfolding st1_def
    by (rule same_outside_await) (simp add: register_same_outside)
  have w1: "rs_writes st1 = []"
    unfolding st1_def by simp
  have t1: "task_steps (heap (rs_mgr st1) (nextRef m)) = customSteps"
    unfolding st1_def by (simp add: task_def)
  show ?thesis
  proof (cases "fst (analyze env w params)")
    case (Inl e)
    then have "runCustomPlan env t params customSteps taskId m w
                 = taskFailed t params taskId (nextRef m) e st1"
      by (simp add: runCustomPlan_def Let_def task_def st1_def)
    with s1 w1 t1 show ?thesis by blast
  next
    case (Inr ctx)
    define st2 where "st2 = st1\<lparr>rs_mgr := updTask (nextRef m) (\<lambda>x. x\<lparr>task_context := Some ctx\<rparr>) (rs_mgr st1)\<rparr>"
    have s2: "same_outside taskId m (rs_mgr st2)"
      unfolding st2_def by (simp add: same_outside_updTask s1)
    have w2: "rs_writes st2 = []"
      unfolding st2_def using w1 by simp
    have t2: "task_steps (heap (rs_mgr st2) (nextRef m)) = customSteps"
      unfolding st2_def using t1 by simp
    obtain x st5 where l: "customLoop env taskId (nextRef m) ctx (length customSteps) 0 st2 = (x, st5)"
      by (cases "customLoop env taskId (nextRef m) ctx (length customSteps) 0 st2")
    have "runCustomPlan env t params customSteps taskId m w =
            (case x of Some e \<Rightarrow> taskFailed t params taskId (nextRef m) e st5
                     | None \<Rightarrow> taskSucceeded t params taskId (nextRef m) ctx st5)"
      using Inr l
      by (cases x) (simp_all add: runCustomPlan_def Let_def task_def st1_def st2_def)
    with s2 w2 t2 l show ?thesis by blast
  qed
qed

lemma executeTask_ended: "ended taskId m (executeTask env t params taskId m w)"
proof -
  consider (a) e st where "same_outside taskId m (rs_mgr st)"
      "executeTask env t params taskId m w = taskFailed t params taskId (nextRef m) e st"
    | (b) ctx k st x st' where "same_outside taskId m (rs_mgr st)"
      "stepLoop env taskId (nextRef m) ctx k 0 st = (x, st')"
      "executeTask env t params taskId m w =
            (case x of Some e \<Rightarrow> taskFailed t params taskId (nextRef m) e st'
                     | None \<Rightarrow> taskSucceeded t params taskId (nextRef m) ctx st')"
    using executeTask_shape [where taskId = taskId and m = m and env = env and t = t
        and params = params and w = w]
      by blast
  then show ?thesis
  proof cases
    case a
    then show ?thesis using taskFailed_ended by simp
  next
    case b
    have "same_outside taskId m (rs_mgr st')"
      using stepLoop_same_outside [of taskId st env "nextRef m" ctx k 0] b(1,2)
        same_outside_trans by auto
    then show ?thesis
      using b(3) taskFailed_ended taskSucceeded_ended by (cases x) simp_all
  qed
qed

lemma stepLoop_writes:
  "\<exists>L. rs_writes (snd (stepLoop env taskId r ctx k i st)) = rs_writes st @ L
           \<and> (\<forall>j. forward (Pending # writes_of j L))"
  unfolding stepLoop_def
  using for_steps_writes [of "stepBody env taskId r ctx" k i st, OF stepBody_writes] by blast

lemma customLoop_writes:
  "\<exists>L. rs_writes (snd (customLoop env taskId r ctx k i st)) = rs_writes st @ L
           \<and> (\<forall>j. forward (Pending # writes_of j L))"
  unfolding customLoop_def
  using for_steps_writes [of "customBody env taskId r ctx" k i st, OF customBody_writes] by blast

lemma forward_Pending_Nil: "forward (Pending # writes_of j [])"
  by simp

lemma executeTask_writes:
  "forward (Pending # writes_of j (rs_writes (snd (executeTask env t params taskId m w))))"
proof -
  consider (a) e st where "rs_writes st = []"
      "executeTask env t params taskId m w = taskFailed t params taskId (nextRef m) e st"
    | (b) ctx k st x st' where "rs_writes st = []"
      "stepLoop env taskId (nextRef m) ctx k 0 st = (x, st')"
      "executeTask env t params taskId m w =
            (case x of Some e \<Rightarrow> taskFailed t params taskId (nextRef m) e st'
                     | None \<Rightarrow> taskSucceeded t params taskId (nextRef m) ctx st')"
    using executeTask_shape [where taskId = taskId and m = m and env = env and t = t
        and params = params and w = w]
      by blast
  then show ?thesis
  proof cases
    case a
    then show ?thesis by simp
  next
    case b
    obtain L where "rs_writes (snd (stepLoop env taskId (nextRef m) ctx k 0 st)) = rs_writes st @ L"
      "\<forall>j. forward (Pending # writes_of j L)"
      using stepLoop_writes by blast
    then have "rs_writes st' = L" "forward (Pending # writes_of j L)"
      using b(1,2) by simp_all
    then show ?thesis
      using b(3) by (cases x) simp_all
  qed
qed

lemma runCustomPlan_writes:
  "forward (Pending # writes_of j
      (rs_writes (snd (runCustomPlan env t params customSteps taskId m w))))"
proof -
  consider (a) e st where "rs_writes st = []"
      "runCustomPlan env t params customSteps taskId m w
         = taskFailed t params taskId (nextRef m) e st"
    | (b) ctx st x st' where "rs_writes st = []"
      "customLoop env taskId (nextRef m) ctx (length customSteps) 0 st = (x, st')"
      "runCustomPlan env t params customSteps taskId m w =
            (case x of Some e \<Rightarrow> taskFailed t params taskId (nextRef m) e st'
                     | None \<Rightarrow> taskSucceeded t params taskId (nextRef m) ctx st')"
    using runCustomPlan_shape [where taskId = taskId and m = m and env = env and t = t
        and params = params and customSteps = customSteps and w = w]
      by blast
  then show ?thesis
  proof cases
    case a
    then show ?thesis by simp
  next
    case b
    obtain L where "rs_writes (snd (customLoop env taskId (nextRef m) ctx (length customSteps) 0 st))
        = rs_writes st @ L"
      "\<forall>j. forward (Pending # writes_of j L)"
      using customLoop_writes by blast
    then have "rs_writes st' = L" "forward (Pending # writes_of j L)"
      using b(1,2) by simp_all
    then show ?thesis
      using b(3) by (cases x) simp_all
  qed
qed

lemma runCustomPlan_ended:
  "ended taskId m (runCustomPlan env t params customSteps taskId m w)"
proof -
  consider (a) e st where "same_outside taskId m (rs_mgr st)"
      "runCustomPlan env t params customSteps taskId m w
         = taskFailed t params taskId (nextRef m) e st"
    | (b) ctx st x st' where "same_outside taskId m (rs_mgr st)"
      "customLoop env taskId (nextRef m) ctx (length customSteps) 0 st = (x, st')"
      "runCustomPlan env t params customSteps taskId m w =
            (case x of Some e \<Rightarrow> taskFailed t params taskId (nextRef m) e st'
                     | None \<Rightarrow> taskSucceeded t params taskId (nextRef m) ctx st')"
    using runCustomPlan_shape [where taskId = taskId and m = m and env = env and t = t
        and params = params and customSteps = customSteps and w = w]
      by blast
  then show ?thesis
  proof cases
    case a
    then show ?thesis using taskFailed_ended by simp
  next
    case b
    have "same_outside taskId m (rs_mgr st')"
      using customLoop_same_outside [of taskId st env "nextRef m" ctx "length customSteps" 0] b(1,2)
        same_outside_trans by auto
    then show ?thesis
      using b(3) taskFailed_ended taskSucceeded_ended by (cases x) simp_all
  qed
qed

subsection \<open>The statuses in the store and the recorded writes\<close>

lemma tracked_init:
  "task_steps (heap (rs_mgr st) r) = steps0 \<Longrightarrow> rs_writes st = [] \<Longrightarrow> tracked steps0 r st"
  by (simp add: tracked_def)

lemma stepLoop_tracked:
  "tracked steps0 r st \<Longrightarrow> tracked steps0 r (snd (stepLoop env taskId r ctx k i st))"
  unfolding stepLoop_def by (rule for_steps_tracked) (rule stepBody_tracked)

lemma customLoop_tracked:
  "tracked steps0 r st \<Longrightarrow> tracked steps0 r (snd (customLoop env taskId r ctx k i st))"
  unfolding customLoop_def by (rule for_steps_tracked) (rule customBody_tracked)

lemma executeTask_tracked:
  "\<exists>steps0. (\<forall>s \<in> set steps0. step_status s = Pending)
      \<and> tracked steps0 (nextRef m) (snd (executeTask env t params taskId m w))"
proof -
  consider (a) e st where "rs_writes st = []"
      "task_steps (heap (rs_mgr st) (nextRef m)) = []"
      "executeTask env t params taskId m w = taskFailed t params taskId (nextRef m) e st"
    | (b) ctx and plan :: Plan and st x st' where "rs_writes st = []"
      "\<forall>s \<in> set (plan_steps plan). step_status s = Pending"
      "task_steps (heap (rs_mgr st) (nextRef m)) = plan_steps plan"
      "stepLoop env taskId (nextRef m) ctx (length (plan_steps plan)) 0 st = (x, st')"
      "executeTask env t params taskId m w =
            (case x of Some e \<Rightarrow> taskFailed t params taskId (nextRef m) e st'
                     | None \<Rightarrow> taskSucceeded t params taskId (nextRef m) ctx st')"
    using executeTask_shape [where taskId = taskId and m = m and env = env and t = t
        and params = params and w = w]
    by blast
  then show ?thesis
  proof cases
    case a
    have "tracked [] (nextRef m) st"
      using a(2,1) by (rule tracked_init)
    then have "tracked [] (nextRef m) (snd (executeTask env t params taskId m w))"
      using a(3) by (simp add: tracked_taskFailed)
    then show ?thesis
      by (intro exI [of _ "[]"]) simp
  next
    case b
    have "tracked (plan_steps plan) (nextRef m) st"
      using b(3,1) by (rule tracked_init)
    then have "tracked (plan_steps plan) (nextRef m)
        (snd (stepLoop env taskId (nextRef m) ctx (length (plan_steps plan)) 0 st))"
      by (rule stepLoop_tracked)
    then have "tracked (plan_steps plan) (nextRef m) st'"
      using b(4) by simp
    then have "tracked (plan_steps plan) (nextRef m) (snd (executeTask env t params taskId m w))"
      using b(5) by (cases x) (simp_all add: tracked_taskFailed tracked_taskSucceeded)
    with b(2) show ?thesis by blast
  qed
qed

lemma runCustomPlan_tracked:
  "tracked customSteps (nextRef m) (snd (runCustomPlan env t params customSteps taskId m w))"
proof -
  consider (a) e st where "rs_writes st = []"
      "task_steps (heap (rs_mgr st) (nextRef m)) = customSteps"
      "runCustomPlan env t params customSteps taskId m w
         = taskFailed t params taskId (nextRef m) e st"
    | (b) ctx st x st' where "rs_writes st = []"
      "task_steps (heap (rs_mgr st) (nextRef m)) = customSteps"
      "customLoop env taskId (nextRef m) ctx (length customSteps) 0 st = (x, st')"
      "runCustomPlan env t params customSteps taskId m w =
            (case x of Some e \<Rightarrow> taskFailed t params taskId (nextRef m) e st'
                     | None \<Rightarrow> taskSucceeded t params taskId (nextRef m) ctx st')"
    using runCustomPlan_shape [where taskId = taskId and m = m and env = env and t = t
        and params = params and customSteps = customSteps and w = w]
    by blast
  then show ?thesis
  proof cases
    case a
    have "tracked customSteps (nextRef m) st"
      using a(2,1) by (rule tracked_init)
    then show ?thesis
      using a(3) by (simp add: tracked_taskFailed)
  next
    case b
    have "tracked customSteps (nextRef m) st"
      using b(2,1) by (rule tracked_init)
    then have "tracked customSteps (nextRef m)
        (snd (customLoop env taskId (nextRef m) ctx (length customSteps) 0 st))"
      by (rule customLoop_tracked)
    then have "tracked customSteps (nextRef m) st'"
      using b(3) by simp
    then show ?thesis
      using b(4) by (cases x) (simp_all add: tracked_taskFailed tracked_taskSucceeded)
  qed
qed

subsection \<open>The status a run leaves on the task\<close>

lemma taskFailed_status [simp]:
  "task_status (heap (rs_mgr (snd (taskFailed t params taskId r e st))) r) = TaskFailed"
  "task_error (heap (rs_mgr (snd (taskFailed t params taskId r e st))) r) = Some e"
  "fst (taskFailed t params taskId r e st) = Inl e"
  by (simp_all add: taskFailed_def Let_def finish_def)

lemma taskSucceeded_status [simp]:
  "task_status (heap (rs_mgr (snd (taskSucceeded t params taskId r ctx st))) r) = TaskCompleted"
  "\<exists>res. fst (taskSucceeded t params taskId r ctx st) = Inr res"
  by (simp_all add: taskSucceeded_def Let_def finish_def)

lemma executeTask_final_status:
  "(case fst (executeTask env t params taskId m w) of
      Inl e \<Rightarrow> task_status (heap (rs_mgr (snd (executeTask env t params taskId m w))) (nextRef m))
                 = TaskFailed
             \<and> task_error (heap (rs_mgr (snd (executeTask env t params taskId m w))) (nextRef m))
                 = Some e
    | Inr res \<Rightarrow> task_status (heap (rs_mgr (snd (executeTask env t params taskId m w))) (nextRef m))
                 = TaskCompleted)"
proof -
  consider (a) e st where
      "executeTask env t params taskId m w = taskFailed t params taskId (nextRef m) e st"
    | (b) ctx st' where
      "executeTask env t params taskId m w = taskSucceeded t params taskId (nextRef m) ctx st'"
    using executeTask_shape [where taskId = taskId and m = m and env = env and t = t
        and params = params and w = w]
    by (auto split: option.splits)
  then show ?thesis
  proof cases
    case a
    then show ?thesis by simp
  next
    case b
    obtain res where "fst (taskSucceeded t params taskId (nextRef m) ctx st') = Inr res"
      using taskSucceeded_status(2) by blast
    then show ?thesis using b by simp
  qed
qed

lemma runCustomPlan_final_status:
  "(case fst (runCustomPlan env t params customSteps taskId m w) of
      Inl e \<Rightarrow>
        task_status (heap (rs_mgr (snd (runCustomPlan env t params customSteps taskId m w)))
            (nextRef m)) = TaskFailed
        \<and> task_error (heap (rs_mgr (snd (runCustomPlan env t params customSteps taskId m w)))
            (nextRef m)) = Some e
    | Inr res \<Rightarrow>
        task_status (heap (rs_mgr (snd (runCustomPlan env t params customSteps taskId m w)))
            (nextRef m)) = TaskCompleted)"
proof -
  consider (a) e st where
      "runCustomPlan env t params customSteps taskId m w
         = taskFailed t params taskId (nextRef m) e st"
    | (b) ctx st' where
      "runCustomPlan env t params customSteps taskId m w
         = taskSucceeded t params taskId (nextRef m) ctx st'"
    using runCustomPlan_shape [where taskId = taskId and m = m and env = env and t = t
        and params = params and customSteps = customSteps and w = w]
    by (auto split: option.splits)
  then show ?thesis
  proof cases
    case a
    then show ?thesis by simp
  next
    case b
    obtain res where "fst (taskSucceeded t params taskId (nextRef m) ctx st') = Inr res"
      using taskSucceeded_status(2) by blast
    then show ?thesis using b by simp
  qed
qed

subsection \<open>An unsafe step in the two loop bodies\<close>

lemma map_at_map_at: "map_at i f (map_at i g xs) = map_at i (\<lambda>x. f (g x)) xs"
  by (induction i g xs rule: map_at.induct) auto

lemma setStepStatus_steps [simp]:
  "task_steps (heap (rs_mgr (setStepStatus r i s st)) r)
     = map_at i (\<lambda>x. x\<lparr>step_status := s\<rparr>) (task_steps (heap (rs_mgr st) r))"
  by (simp add: setStepStatus_def updStep_def)

lemma failStep_steps [simp]:
  "task_steps (heap (rs_mgr (failStep r i e st)) r)
     = map_at i (\<lambda>x. x\<lparr>step_status := Failed, step_error := Some e\<rparr>)
         (task_steps (heap (rs_mgr st) r))"
  by (simp add: failStep_def Let_def updStep_def map_at_map_at)

lemma stepBody_unsafe:
  assumes "activeTasks (rs_mgr st) taskId = Some a"
    and "nth_opt (task_steps (heap (rs_mgr st) r)) i = Some s"
    and "validateStep (s\<lparr>step_status := Running\<rparr>) ctx = Inr v" and "\<not> safe v"
    and "stringifiable (step_id s)"
  shows "fst (stepBody env taskId r ctx i st) = Some (unsafe_error v)"
    and "task_steps (heap (rs_mgr (snd (stepBody env taskId r ctx i st))) r)
          = map_at i (\<lambda>x. x\<lparr>step_status := Failed, step_error := Some (unsafe_error v)\<rparr>)
              (task_steps (heap (rs_mgr st) r))"
  using assms by (simp_all add: stepBody_def catchStep_def template_def Let_def map_at_map_at)

lemma stepBody_unsafe_id_without_string:
  assumes "activeTasks (rs_mgr st) taskId = Some a"
    and "nth_opt (task_steps (heap (rs_mgr st) r)) i = Some s"
    and "validateStep (s\<lparr>step_status := Running\<rparr>) ctx = Inr v" and "\<not> safe v"
    and "\<not> stringifiable (step_id s)"
  shows "fst (stepBody env taskId r ctx i st) = Some TypeError"
    and "task_steps (heap (rs_mgr (snd (stepBody env taskId r ctx i st))) r)
          = map_at i (\<lambda>x. x\<lparr>step_status := Running\<rparr>) (task_steps (heap (rs_mgr st) r))"
  using assms by (simp_all add: stepBody_def catchStep_def template_def Let_def)

lemma customBody_unsafe:
  assumes "activeTasks (rs_mgr st) taskId = Some a"
    and "nth_opt (task_steps (heap (rs_mgr st) r)) i = Some s"
    and "validateStep (s\<lparr>step_status := Running\<rparr>) ctx = Inr v" and "\<not> safe v"
  shows "fst (customBody env taskId r ctx i st) = Some (unsafe_error v)"
    and "task_steps (heap (rs_mgr (snd (customBody env taskId r ctx i st))) r)
          = map_at i (\<lambda>x. x\<lparr>step_status := Running\<rparr>) (task_steps (heap (rs_mgr st) r))"
  using assms by (simp_all add: customBody_def Let_def)

lemma for_steps_stops:
  "body i st = (Some e, st') \<Longrightarrow> for_steps body (Suc k) i st = (Some e, st')"
  by simp

section \<open>Properties of the history\<close>






lemma pushToHistory_last: "last (pushToHistory res h) = res"
  by (cases h) (auto simp: pushToHistory_def Let_def)

lemma pushToHistory_set: "set (pushToHistory res h) \<subseteq> insert res (set h)"
  by (cases h) (auto simp: pushToHistory_def Let_def)

lemma pushToHistory_mem: "res \<in> set (pushToHistory res h)"
  by (cases h) (auto simp: pushToHistory_def Let_def)


subsection \<open>The history after a sequence of runs\<close>







text \<open>
  One run on a full history, evaluated: a \<^verbatim>\<open>review\<close> task submitted to a manager whose
  history holds the results of the tasks 1 to 50 completes, and the history then holds
  the results of the tasks 2 to 51.
\<close>

lemma full_history_run:
  "length (taskHistory (new_manager\<lparr>taskHistory := map demo_result [1..<51]\<rparr>)) = 50
   \<and> map res_taskId (taskHistory (rs_mgr (snd (executeTask (demo_env offline parse_nothing 1000)
        Review implement_params (demo_id 51)
        (new_manager\<lparr>taskHistory := map demo_result [1..<51]\<rparr>) 0))))
      = map demo_id [2..<52]
   \<and> res_success (last (taskHistory (rs_mgr (snd (executeTask
        (demo_env offline parse_nothing 1000) Review implement_params (demo_id 51)
        (new_manager\<lparr>taskHistory := map demo_result [1..<51]\<rparr>) 0)))))"
  by code_simp

subsection \<open>The bounded history\<close>



section \<open>More properties of the manager\<close>

lemma forward_tl: "forward (a # xs) \<Longrightarrow> forward xs"
  by (cases xs) simp_all

lemma nth_opt_mem: "nth_opt xs i = Some x \<Longrightarrow> x \<in> set xs"
  by (induction xs i rule: nth_opt.induct) auto

lemma statuses_of_forward:
  assumes p: "\<forall>s \<in> set steps0. step_status s = Pending"
    and f: "forward (Pending # writes_of j ws)"
  shows "forward (statuses_of j steps0 ws)"
proof (cases "nth_opt steps0 j")
  case None
  then show ?thesis
    using forward_tl [OF f] by (simp add: statuses_of_def)
next
  case (Some s)
  then have "s \<in> set steps0" by (rule nth_opt_mem)
  then have "step_status s = Pending"
    using p by simp
  then show ?thesis
    using f Some by (simp add: statuses_of_def)
qed

lemma ended_inactive:
  "ended taskId m out \<Longrightarrow> getTaskById taskId (rs_mgr (snd out)) = None"
  by (auto simp: ended_def getTaskById_def)

lemma ended_in_history:
  "ended taskId m out \<Longrightarrow> \<exists>res \<in> set (taskHistory (rs_mgr (snd out))). res_taskId res = taskId"
  using pushToHistory_mem by (auto simp: ended_def)

lemma ended_disjoint:
  assumes "ended taskId m out" and "ids_disjoint m"
  shows "ids_disjoint (rs_mgr (snd out))"
proof -
  from assms(1) obtain res where r: "res_taskId res = taskId"
    "taskHistory (rs_mgr (snd out)) = pushToHistory res (taskHistory m)"
    "activeTasks (rs_mgr (snd out)) = (activeTasks m)(taskId := None)"
    by (auto simp: ended_def)
  show ?thesis
    unfolding ids_disjoint_def
  proof
    fix x
    assume "x \<in> set (taskHistory (rs_mgr (snd out)))"
    then have "x = res \<or> x \<in> set (taskHistory m)"
      using r(2) pushToHistory_set by fastforce
    then show "activeTasks (rs_mgr (snd out)) (res_taskId x) = None"
      using r(1,3) assms(2) by (auto simp: ids_disjoint_def)
  qed
qed

lemma cancelTask_disjoint: "ids_disjoint m \<Longrightarrow> ids_disjoint (snd (cancelTask k m))"
  by (auto simp: ids_disjoint_def cancelTask_def split: option.splits)

lemma register_disjoint:
  "ids_disjoint m \<Longrightarrow> \<forall>res \<in> set (taskHistory m). res_taskId res \<noteq> taskId \<Longrightarrow>
   ids_disjoint (register taskId task m)"
  by (auto simp: ids_disjoint_def register_def)

lemma finish_disjoint:
  assumes "ids_disjoint m" and "res_taskId res = taskId"
  shows "ids_disjoint (finish taskId res m)"
  unfolding ids_disjoint_def
proof
  fix x
  assume "x \<in> set (taskHistory (finish taskId res m))"
  then have "x = res \<or> x \<in> set (taskHistory m)"
    using pushToHistory_set by (fastforce simp: finish_def)
  then show "activeTasks (finish taskId res m) (res_taskId x) = None"
    using assms by (auto simp: ids_disjoint_def finish_def)
qed

section \<open>Runs of the manager\<close>

subsection \<open>Cancellation\<close>

text \<open>
  Claim C1, evaluated at its own scenario: an \<^verbatim>\<open>implement\<close> task with the five-step
  default plan, cancelled through \<^verbatim>\<open>cancelTask\<close> while the second step runs. The first
  two steps keep \<open>completed\<close> and their results and the last three stay \<open>pending\<close>, as
  claimed. But the loop then throws the cancellation error into the outer \<^verbatim>\<open>catch\<close>,
  which overwrites the status \<open>cancelled\<close> written by \<^verbatim>\<open>cancelTask\<close>: the task ends
  \<open>failed\<close>, with a failed result in the history.
\<close>

theorem cancelled_task_ends_failed:
  "fst cancelled_run = Inl (Err ''Task cancelled by user'')
   \<and> map step_status (task_steps (heap (rs_mgr (snd cancelled_run)) 0))
       = [Completed, Completed, Pending, Pending, Pending]
   \<and> map step_result (task_steps (heap (rs_mgr (snd cancelled_run)) 0))
       = [Some (JStr ''ok''), Some (JStr ''ok''), None, None, None]
   \<and> task_status (heap (rs_mgr (snd cancelled_run)) 0) = TaskFailed
   \<and> task_error (heap (rs_mgr (snd cancelled_run)) 0) = Some (Err ''Task cancelled by user'')
   \<and> map res_success (taskHistory (rs_mgr (snd cancelled_run))) = [False]
   \<and> map res_error (taskHistory (rs_mgr (snd cancelled_run)))
       = [Some (Err ''Task cancelled by user'')]"
  by code_simp

subsection \<open>An unsafe step\<close>

text \<open>
  Claim C2, evaluated at a plan whose first step is \<^verbatim>\<open>rm -rf /tmp/x\<close>. Run through
  \<^verbatim>\<open>runCustomPlan\<close>, the task fails with the validation error and the second step stays
  \<open>pending\<close>, but the unsafe step is left \<open>running\<close> with no error attached: the
  validator is called outside the inner \<^verbatim>\<open>try\<close>. Run through \<^verbatim>\<open>executeTask\<close>, the same
  plan leaves the step \<open>failed\<close> with the error attached, as claimed.
\<close>

theorem custom_plan_leaves_unsafe_step_running:
  "fst unsafe_custom_run
     = Inl (Err ''Safety validation failed: Dangerous command detected: rm -rf /tmp/x'')
   \<and> map step_status (task_steps (heap (rs_mgr (snd unsafe_custom_run)) 0)) = [Running, Pending]
   \<and> map step_error (task_steps (heap (rs_mgr (snd unsafe_custom_run)) 0)) = [None, None]
   \<and> task_status (heap (rs_mgr (snd unsafe_custom_run)) 0) = TaskFailed
   \<and> fst unsafe_planned_run
     = Inl (Err ''Safety validation failed: Dangerous command detected: rm -rf /tmp/x'')
   \<and> map step_status (task_steps (heap (rs_mgr (snd unsafe_planned_run)) 0)) = [Failed, Pending]
   \<and> map step_error (task_steps (heap (rs_mgr (snd unsafe_planned_run)) 0))
       = [Some (Err ''Safety validation failed: Dangerous command detected: rm -rf /tmp/x''),
          None]
   \<and> task_status (heap (rs_mgr (snd unsafe_planned_run)) 0) = TaskFailed"
  by code_simp

subsection \<open>The order of the step statuses\<close>

text \<open>
  Claim C5, as amended. Every plan \<^verbatim>\<open>createPlan\<close> returns has all its steps \<open>pending\<close>.
  In every run of \<^verbatim>\<open>executeTask\<close> and of \<^verbatim>\<open>runCustomPlan\<close>, the values written to the
  status of any one step are \<open>running\<close> first and then at most one of \<open>completed\<close> and
  \<open>failed\<close>; so a step that starts \<open>pending\<close> only moves forward and never skips
  \<open>running\<close>. That covers every step of \<^verbatim>\<open>executeTask\<close>, and the steps of
  \<^verbatim>\<open>runCustomPlan\<close> when the steps handed in are all \<open>pending\<close>. The recorded writes are
  the writes of the run: at its end the status of each step in the store is the last value
  recorded for it, or the status the step started with when none was; the steps of
  \<^verbatim>\<open>executeTask\<close> start \<open>pending\<close>, those of \<^verbatim>\<open>runCustomPlan\<close> as they were handed in.
\<close>

theorem step_status_moves_forward:
  "(createPlan parse t params ctx llm = Inr plan
      \<longrightarrow> (\<forall>s \<in> set (plan_steps plan). step_status s = Pending))
   \<and> forward (Pending # writes_of j (rs_writes (snd (executeTask env t params taskId m w))))
   \<and> forward (Pending # writes_of j
        (rs_writes (snd (runCustomPlan env t params customSteps taskId m w))))
   \<and> ((\<forall>s \<in> set customSteps. step_status s = Pending)
      \<longrightarrow> forward (statuses_of j customSteps
            (rs_writes (snd (runCustomPlan env t params customSteps taskId m w)))))
   \<and> (\<exists>steps0. (\<forall>s \<in> set steps0. step_status s = Pending)
         \<and> tracked steps0 (nextRef m) (snd (executeTask env t params taskId m w)))
   \<and> tracked customSteps (nextRef m) (snd (runCustomPlan env t params customSteps taskId m w))"
proof (intro conjI impI)
  assume "createPlan parse t params ctx llm = Inr plan"
  then show "\<forall>s \<in> set (plan_steps plan). step_status s = Pending"
    by (rule createPlan_pending)
next
  show "forward (Pending # writes_of j (rs_writes (snd (executeTask env t params taskId m w))))"
    by (rule executeTask_writes)
next
  show "forward (Pending # writes_of j
        (rs_writes (snd (runCustomPlan env t params customSteps taskId m w))))"
    by (rule runCustomPlan_writes)
next
  assume p: "\<forall>s \<in> set customSteps. step_status s = Pending"
  show "forward (statuses_of j customSteps
            (rs_writes (snd (runCustomPlan env t params customSteps taskId m w))))"
    using p runCustomPlan_writes by (rule statuses_of_forward)
next
  show "\<exists>steps0. (\<forall>s \<in> set steps0. step_status s = Pending)
         \<and> tracked steps0 (nextRef m) (snd (executeTask env t params taskId m w))"
    by (rule executeTask_tracked)
next
  show "tracked customSteps (nextRef m)
      (snd (runCustomPlan env t params customSteps taskId m w))"
    by (rule runCustomPlan_tracked)
qed

text \<open>
  The theorem at the default plan of a refactor task and at the custom run of the unsafe
  plan.
\<close>

theorem step_status_moves_forward_witness:
  "(\<exists>plan. createPlan parse_nothing Refactor implement_params demo_context offline = Inr plan
       \<and> list_all (\<lambda>s. step_status s = Pending) (plan_steps plan))
   \<and> forward (statuses_of 0 [rm_step, mkStep ''step_2'' ''Step 2'' [] ''analysis'' []]
        (rs_writes (snd unsafe_custom_run)))"
proof -
  have n: "implement_params \<noteq> JUndefined" "implement_params \<noteq> JNull"
    by (simp_all add: implement_params_def)
  obtain steps where "default_steps Refactor implement_params demo_context = Inr steps"
    using default_steps_total [OF n] by blast
  then obtain plan where
    p: "createPlan parse_nothing Refactor implement_params demo_context offline = Inr plan"
    by (simp add: createPlan_def offline_def createDefaultPlan_def)
  have "\<forall>s \<in> set (plan_steps plan). step_status s = Pending"
    by (rule step_status_moves_forward [THEN conjunct1, THEN mp, OF p])
  then have "list_all (\<lambda>s. step_status s = Pending) (plan_steps plan)"
    by (simp add: list_all_iff)
  with p have 1: "\<exists>plan. createPlan parse_nothing Refactor implement_params demo_context offline = Inr plan
       \<and> list_all (\<lambda>s. step_status s = Pending) (plan_steps plan)"
    by (intro exI [of _ plan] conjI)
  have a: "\<forall>s \<in> set [rm_step, mkStep ''step_2'' ''Step 2'' [] ''analysis'' []].
             step_status s = Pending"
    by (simp add: rm_step_def)
  have 2: "forward (statuses_of 0 [rm_step, mkStep ''step_2'' ''Step 2'' [] ''analysis'' []]
        (rs_writes (snd unsafe_custom_run)))"
    unfolding unsafe_custom_run_def
    by (rule step_status_moves_forward
         [THEN conjunct2, THEN conjunct2, THEN conjunct2, THEN conjunct1, THEN mp, OF a])
  from 1 2 show ?thesis by (rule conjI)
qed

text \<open>
  The claim as first stated fails in \<^verbatim>\<open>runCustomPlan\<close>, which does not reset the statuses
  it is given: a step handed in as \<open>completed\<close> is set back to \<open>running\<close>.
\<close>

theorem rerun_status_counterexample:
  "statuses_of 0 [done_step] (rs_writes (snd rerun)) = [Completed, Running, Completed]
   \<and> \<not> forward (statuses_of 0 [done_step] (rs_writes (snd rerun)))"
  by code_simp

subsection \<open>Terminal tasks are not active\<close>

text \<open>
  Claim C6, as amended. When \<^verbatim>\<open>executeTask\<close> or \<^verbatim>\<open>runCustomPlan\<close> has ended, by success,
  failure or an observed cancellation, and when \<^verbatim>\<open>cancelTask\<close> has returned,
  \<^verbatim>\<open>getTaskById\<close> finds nothing under the task's id; after the first two, a result with
  that id is in the history. \<^verbatim>\<open>cancelTask\<close> itself sets the status \<open>cancelled\<close> and leaves
  the history as it was. No id is both active and in the history: the three operations
  keep that property, and so do the two blocks that change the map and the history inside
  them, the registration of a task under an id the history does not hold and the terminal
  block.
\<close>

theorem terminal_task_not_active:
  "getTaskById taskId (rs_mgr (snd (executeTask env t params taskId m w))) = None
   \<and> getTaskById taskId (rs_mgr (snd (runCustomPlan env t params customSteps taskId m w))) = None
   \<and> getTaskById taskId (snd (cancelTask taskId m)) = None
   \<and> getTaskHistory (snd (cancelTask taskId m)) = getTaskHistory m
   \<and> (activeTasks m taskId = Some r
        \<longrightarrow> task_status (heap (snd (cancelTask taskId m)) r) = Cancelled)
   \<and> (\<exists>res \<in> set (taskHistory (rs_mgr (snd (executeTask env t params taskId m w)))).
         res_taskId res = taskId)
   \<and> (\<exists>res \<in> set (taskHistory (rs_mgr (snd (runCustomPlan env t params customSteps taskId m w)))).
         res_taskId res = taskId)
   \<and> (ids_disjoint m \<longrightarrow>
         ids_disjoint (rs_mgr (snd (executeTask env t params taskId m w)))
       \<and> ids_disjoint (rs_mgr (snd (runCustomPlan env t params customSteps taskId m w)))
       \<and> ids_disjoint (snd (cancelTask taskId m)))
   \<and> (ids_disjoint m \<and> (\<forall>res \<in> set (taskHistory m). res_taskId res \<noteq> taskId) \<longrightarrow>
         ids_disjoint (register taskId task m))
   \<and> (ids_disjoint m \<and> res_taskId res = taskId \<longrightarrow> ids_disjoint (finish taskId res m))"
proof -
  note e = executeTask_ended [of taskId m env t params w]
  note c = runCustomPlan_ended [of taskId m env t params customSteps w]
  have k: "getTaskById taskId (snd (cancelTask taskId m)) = None"
    by (simp add: getTaskById_def cancelTask_inactive)
  have h: "getTaskHistory (snd (cancelTask taskId m)) = getTaskHistory m"
    by (simp add: getTaskHistory_def cancelTask_def updTask_def split: option.splits)
  have s: "activeTasks m taskId = Some r
        \<longrightarrow> task_status (heap (snd (cancelTask taskId m)) r) = Cancelled"
    by (simp add: cancelTask_def updTask_def)
  show ?thesis
    using ended_inactive [OF e] ended_inactive [OF c] k h s ended_in_history [OF e]
      ended_in_history [OF c] ended_disjoint [OF e] ended_disjoint [OF c]
      cancelTask_disjoint [of m taskId] register_disjoint [of m taskId task]
      finish_disjoint [of m res taskId]
    by blast
qed

text \<open>The theorem at the cancelled run and at the new manager.\<close>

theorem terminal_task_not_active_witness:
  "getTaskById ''task_1'' (rs_mgr (snd cancelled_run)) = None
   \<and> ids_disjoint (rs_mgr (snd cancelled_run))
   \<and> ids_disjoint (register ''task_1'' blank_task new_manager)
   \<and> ids_disjoint (finish ''task_1'' (demo_result 1\<lparr>res_taskId := ''task_1''\<rparr>) new_manager)"
proof -
  have d: "ids_disjoint new_manager"
    by (simp add: ids_disjoint_def new_manager_def)
  have f: "ids_disjoint new_manager
      \<and> (\<forall>res \<in> set (taskHistory new_manager). res_taskId res \<noteq> ''task_1'')"
    using d by (simp add: new_manager_def)
  have r: "ids_disjoint new_manager
      \<and> res_taskId (demo_result 1\<lparr>res_taskId := ''task_1''\<rparr>) = ''task_1''"
    using d by simp
  note T = terminal_task_not_active [where taskId = "''task_1''" and m = new_manager
      and env = "demo_env offline parse_nothing 5" and t = Implement and params = implement_params
      and w = "0::nat" and task = blank_task and r = "0::nat"
      and res = "demo_result 1\<lparr>res_taskId := ''task_1''\<rparr>"]
  have 1: "getTaskById ''task_1'' (rs_mgr (snd cancelled_run)) = None"
    unfolding cancelled_run_def by (rule T [THEN conjunct1])
  have 2: "ids_disjoint (rs_mgr (snd cancelled_run))"
    unfolding cancelled_run_def
    using T [THEN conjunct2, THEN conjunct2, THEN conjunct2, THEN conjunct2, THEN conjunct2,
        THEN conjunct2, THEN conjunct2, THEN conjunct1, rule_format, OF d]
    by (rule conjunct1)
  have 3: "ids_disjoint (register ''task_1'' blank_task new_manager)"
    by (rule T [THEN conjunct2, THEN conjunct2, THEN conjunct2, THEN conjunct2, THEN conjunct2,
        THEN conjunct2, THEN conjunct2, THEN conjunct2, THEN conjunct1, rule_format, OF f])
  have 4: "ids_disjoint (finish ''task_1'' (demo_result 1\<lparr>res_taskId := ''task_1''\<rparr>) new_manager)"
    by (rule T [THEN conjunct2, THEN conjunct2, THEN conjunct2, THEN conjunct2, THEN conjunct2,
        THEN conjunct2, THEN conjunct2, THEN conjunct2, THEN conjunct2, rule_format, OF r])
  from 1 2 3 4 show ?thesis by (intro conjI)
qed

text \<open>
  The claim as first stated fails between \<^verbatim>\<open>cancelTask\<close> and the next iteration of the
  loop: the task has the status \<open>cancelled\<close> and is no longer active, and the history
  holds no result for it.
\<close>

theorem cancelled_task_not_in_history:
  "fst (cancelTask ''task_1'' (register ''task_1'' blank_task new_manager)) = True
   \<and> task_status (heap (snd (cancelTask ''task_1'' (register ''task_1'' blank_task new_manager))) 0)
       = Cancelled
   \<and> getTaskById ''task_1'' (snd (cancelTask ''task_1'' (register ''task_1'' blank_task new_manager)))
       = None
   \<and> getTaskHistory (snd (cancelTask ''task_1'' (register ''task_1'' blank_task new_manager))) = []"
  by code_simp

end
